(* ===== verification/Prelude.thy ===== *)
theory Prelude
  imports Complex_Main
begin

text \<open>
  Shared vocabulary of the development: the Python exceptions the program can raise,
  the character classes of CPython's \<open>str\<close> methods and of its regular expressions,
  \<open>str.strip\<close>, \<open>str.split\<close>, \<open>int(str)\<close> and \<open>str(int)\<close> with CPython 3.11's
  4300-digit conversion limit, and the generic lemmas on them that the component
  theories use. Characters are HOL \<open>char\<close>s read as Latin-1 code points (0 to 255);
  on that range the classes below are exactly CPython's.
\<close>

named_theorems py_simps \<open>evaluation rules of the modelled Python built-ins\<close>

section \<open>Exceptions as values\<close>

text \<open>
  Every raise of the program or of a library function it calls is an \<open>Inl\<close> of this
  type; a bare \<^verbatim>\<open>except:\<close> of the source is a case split on the sum.
\<close>

datatype py_error =
    ValueError
  | ZeroDivisionError
  | OverflowError
  | TypeError
  | AttributeError
  | WebDriverException

type_synonym 'a py = "py_error + 'a"

text \<open>Sequencing: the first raise propagates, as an uncaught exception does.\<close>

definition py_bind :: "'a py \<Rightarrow> ('a \<Rightarrow> 'b py) \<Rightarrow> 'b py" where
  "py_bind r f = (case r of Inl e \<Rightarrow> Inl e | Inr a \<Rightarrow> f a)"

text \<open>\<^verbatim>\<open>a // b\<close> on ints: floor division, as HOL's \<open>div\<close>, but raising on zero.\<close>

definition py_floordiv :: "int \<Rightarrow> int \<Rightarrow> int py" where
  "py_floordiv a b = (if b = 0 then Inl ZeroDivisionError else Inr (a div b))"

section \<open>Character classes\<close>

text \<open>
  \<open>Py_UNICODE_ISSPACE\<close> on Latin-1, shared by \<^verbatim>\<open>str.split()\<close>, \<^verbatim>\<open>str.strip()\<close>
  and the regular-expression class \<^verbatim>\<open>\s\<close>: tab to carriage return, the four
  information separators, space, NEL and no-break space.
\<close>

definition is_py_space :: "char \<Rightarrow> bool" where
  "is_py_space c =
     (let n = (of_char c :: int)
      in (9 \<le> n \<and> n \<le> 13) \<or> (28 \<le> n \<and> n \<le> 32) \<or> n = 133 \<or> n = 160)"

text \<open>\<^verbatim>\<open>[0-9]\<close>, and \<^verbatim>\<open>\d\<close> on Latin-1.\<close>

definition is_digit :: "char \<Rightarrow> bool" where
  "is_digit c = (let n = (of_char c :: int) in 48 \<le> n \<and> n \<le> 57)"

definition digit_value :: "char \<Rightarrow> int" where
  "digit_value c = of_char c - 48"

definition digit_char :: "int \<Rightarrow> char" where
  "digit_char d = char_of (48 + d)"

text \<open>\<^verbatim>\<open>\d+\<close>: a non-empty string of digits.\<close>

definition all_digits :: "string \<Rightarrow> bool" where
  "all_digits ds \<longleftrightarrow> ds \<noteq> [] \<and> (\<forall>c \<in> set ds. is_digit c)"

section \<open>Decimal integers\<close>

text \<open>The value of a string of decimal digits, most significant first.\<close>

definition int_of_digits :: "string \<Rightarrow> int" where
  "int_of_digits ds = foldl (\<lambda>n c. 10 * n + digit_value c) 0 ds"

text \<open>CPython 3.11's default \<^verbatim>\<open>sys.get_int_max_str_digits()\<close>.\<close>

definition max_str_digits :: nat where
  "max_str_digits = 4300"

text \<open>
  \<^verbatim>\<open>int(s)\<close> for a string that the caller's regular expression has already matched
  as \<^verbatim>\<open>\d+(_\d+)*\<close>: the underscores are dropped, and a value with more than
  4300 digits raises \<open>ValueError\<close>.
\<close>

definition py_int_of_digits :: "string \<Rightarrow> int py" where
  "py_int_of_digits s =
     (let ds = filter is_digit s
      in if max_str_digits < length ds then Inl ValueError else Inr (int_of_digits ds))"

text \<open>The decimal digits of a non-negative int without leading zeros.\<close>

function digits_of_int :: "int \<Rightarrow> string" where
  "digits_of_int n =
     (if n < 10 then [digit_char n] else digits_of_int (n div 10) @ [digit_char (n mod 10)])"
  by pat_completeness auto
termination
  by (relation "measure nat") auto

declare digits_of_int.simps [simp del]

text \<open>\<^verbatim>\<open>str(i)\<close> for a Python int, which raises beyond 4300 digits.\<close>

definition py_str_int :: "int \<Rightarrow> string py" where
  "py_str_int i =
     (let ds = digits_of_int \<bar>i\<bar>
      in if max_str_digits < length ds then Inl ValueError
         else Inr (if i < 0 then CHR ''-'' # ds else ds))"

section \<open>String methods\<close>

definition py_lstrip :: "string \<Rightarrow> string" where
  "py_lstrip s = dropWhile is_py_space s"

definition py_rstrip :: "string \<Rightarrow> string" where
  "py_rstrip s = rev (dropWhile is_py_space (rev s))"

text \<open>\<^verbatim>\<open>str.strip()\<close> with no argument.\<close>

definition py_strip :: "string \<Rightarrow> string" where
  "py_strip s = py_rstrip (py_lstrip s)"

text \<open>\<^verbatim>\<open>sep.join(xs)\<close> for a list of strings.\<close>

fun join_with :: "string \<Rightarrow> string list \<Rightarrow> string" where
  "join_with sep [] = []"
| "join_with sep [x] = x"
| "join_with sep (x # xs) = x @ sep @ join_with sep xs"

text \<open>\<^verbatim>\<open>str.split()\<close> with no argument: the maximal runs of non-space characters.\<close>

function py_split :: "string \<Rightarrow> string list" where
  "py_split s =
     (let t = dropWhile is_py_space s
      in if t = [] then []
         else takeWhile (\<lambda>c. \<not> is_py_space c) t # py_split (dropWhile (\<lambda>c. \<not> is_py_space c) t))"
  by pat_completeness auto
termination
proof (relation "measure length")
  fix s t
  assume t: "t = dropWhile is_py_space s" and ne: "t \<noteq> []"
  then have "\<not> is_py_space (hd t)"
    using hd_dropWhile by blast
  then have "length (dropWhile (\<lambda>c. \<not> is_py_space c) t) < length t"
    using ne by (cases t) (auto simp: le_imp_less_Suc length_dropWhile_le)
  moreover have "length t \<le> length s"
    using t by (simp add: length_dropWhile_le)
  ultimately show "(dropWhile (\<lambda>c. \<not> is_py_space c) t, s) \<in> measure length"
    by simp
qed simp

declare py_split.simps [simp del]

section \<open>Lemmas on digits, strip and split\<close>

lemma py_bind_simps [simp]:
  "py_bind (Inl e) f = Inl e"
  "py_bind (Inr a) f = f a"
  by (simp_all add: py_bind_def)

lemma py_floordiv_Inr: "py_floordiv a b = Inr q \<longleftrightarrow> b \<noteq> 0 \<and> q = a div b"
  by (auto simp: py_floordiv_def)

lemma floordiv_remainder_less: "b \<noteq> 0 \<Longrightarrow> \<bar>a - a div b * b\<bar> < \<bar>b::int\<bar>"
  by (simp add: minus_div_mult_eq_mod abs_mod_less)

lemma py_bind_eq_Inr:
  "py_bind r f = Inr b \<longleftrightarrow> (\<exists>a. r = Inr a \<and> f a = Inr b)"
  by (cases r) simp_all


lemma of_char_digit_char: "0 \<le> d \<Longrightarrow> d < 10 \<Longrightarrow> (of_char (digit_char d) :: int) = 48 + d"
  by (simp add: digit_char_def of_char_of take_bit_int_eq_self)

lemma is_digit_digit_char [simp]: "0 \<le> d \<Longrightarrow> d < 10 \<Longrightarrow> is_digit (digit_char d)"
  by (simp add: is_digit_def of_char_digit_char)

lemma digit_value_digit_char [simp]: "0 \<le> d \<Longrightarrow> d < 10 \<Longrightarrow> digit_value (digit_char d) = d"
  by (simp add: digit_value_def of_char_digit_char)

lemma is_digit_not_space [simp]: "is_digit c \<Longrightarrow> \<not> is_py_space c"
  by (auto simp: is_digit_def is_py_space_def Let_def)

lemma digit_value_range: "is_digit c \<Longrightarrow> 0 \<le> digit_value c \<and> digit_value c < 10"
  unfolding is_digit_def digit_value_def Let_def by arith

lemma all_digits_ne: "all_digits ds \<Longrightarrow> ds \<noteq> []"
  by (simp add: all_digits_def)

lemma all_digits_hd_last: "all_digits ds \<Longrightarrow> is_digit (hd ds) \<and> is_digit (last ds)"
  by (simp add: all_digits_def)

lemma foldl_digits_acc:
  "foldl (\<lambda>n c. 10 * n + digit_value c) a ys
     = a * 10 ^ length ys + foldl (\<lambda>n c. 10 * n + digit_value c) 0 ys"
proof (induction ys arbitrary: a)
  case Nil
  then show ?case by simp
next
  case (Cons y ys)
  have "foldl (\<lambda>n c. 10 * n + digit_value c) a (y # ys)
        = (10 * a + digit_value y) * 10 ^ length ys + foldl (\<lambda>n c. 10 * n + digit_value c) 0 ys"
    using Cons.IH [of "10 * a + digit_value y"] by simp
  also have "\<dots> = a * 10 ^ length (y # ys) + (digit_value y * 10 ^ length ys
                    + foldl (\<lambda>n c. 10 * n + digit_value c) 0 ys)"
    by (simp add: algebra_simps)
  also have "digit_value y * 10 ^ length ys + foldl (\<lambda>n c. 10 * n + digit_value c) 0 ys
           = foldl (\<lambda>n c. 10 * n + digit_value c) 0 (y # ys)"
    using Cons.IH [of "digit_value y"] by simp
  finally show ?case .
qed

lemma int_of_digits_append:
  "int_of_digits (xs @ ys) = int_of_digits xs * 10 ^ length ys + int_of_digits ys"
proof -
  have "foldl (\<lambda>n c. 10 * n + digit_value c) 0 (xs @ ys)
        = foldl (\<lambda>n c. 10 * n + digit_value c) (foldl (\<lambda>n c. 10 * n + digit_value c) 0 xs) ys"
    by simp
  also have "\<dots> = foldl (\<lambda>n c. 10 * n + digit_value c) 0 xs * 10 ^ length ys
                   + foldl (\<lambda>n c. 10 * n + digit_value c) 0 ys"
    by (rule foldl_digits_acc)
  finally show ?thesis unfolding int_of_digits_def .
qed

lemma int_of_digits_Nil [simp]: "int_of_digits [] = 0"
  by (simp add: int_of_digits_def)

lemma int_of_digits_single [simp]: "int_of_digits [c] = digit_value c"
  by (simp add: int_of_digits_def)

lemma int_of_digits_nonneg: "\<forall>c \<in> set ds. is_digit c \<Longrightarrow> 0 \<le> int_of_digits ds"
proof (induction ds rule: rev_induct)
  case Nil
  then show ?case by simp
next
  case (snoc c ds)
  then show ?case
    using digit_value_range [of c] by (simp add: int_of_digits_append)
qed

lemma int_of_digits_digits_of_int [simp]: "0 \<le> n \<Longrightarrow> int_of_digits (digits_of_int n) = n"
proof (induction n rule: digits_of_int.induct)
  case (1 n)
  show ?case
  proof (cases "n < 10")
    case True
    with "1.prems" show ?thesis by (simp add: digits_of_int.simps)
  next
    case False
    then have "int_of_digits (digits_of_int n)
             = int_of_digits (digits_of_int (n div 10)) * 10 + n mod 10"
      by (simp add: digits_of_int.simps [of n] int_of_digits_append)
    with "1.IH" "1.prems" False show ?thesis by simp
  qed
qed

lemma digits_of_int_digits: "0 \<le> n \<Longrightarrow> c \<in> set (digits_of_int n) \<Longrightarrow> is_digit c"
proof (induction n rule: digits_of_int.induct)
  case (1 n)
  then show ?case
    by (cases "n < 10") (auto simp: digits_of_int.simps [of n])
qed

lemma digits_of_int_ne [simp]: "digits_of_int n \<noteq> []"
  by (simp add: digits_of_int.simps [of n])

lemma digits_of_int_length_bound: "0 \<le> n \<Longrightarrow> n < 10 ^ length (digits_of_int n)"
proof (induction n rule: digits_of_int.induct)
  case (1 n)
  show ?case
  proof (cases "n < 10")
    case True
    then show ?thesis by (simp add: digits_of_int.simps)
  next
    case False
    with "1.IH" "1.prems" have "n div 10 < 10 ^ length (digits_of_int (n div 10))" by simp
    then have "n < 10 * 10 ^ length (digits_of_int (n div 10))" by linarith
    with False show ?thesis by (simp add: digits_of_int.simps [of n])
  qed
qed

lemma digits_of_int_length_le: "0 \<le> n \<Longrightarrow> n < 10 ^ k \<Longrightarrow> length (digits_of_int n) \<le> max 1 k"
proof (induction n arbitrary: k rule: digits_of_int.induct)
  case (1 n)
  show ?case
  proof (cases "n < 10")
    case True
    then show ?thesis by (simp add: digits_of_int.simps)
  next
    case False
    with "1.prems" obtain k' where k: "k = Suc k'"
      by (cases k) auto
    with "1.prems" have "n div 10 < 10 ^ k'" by simp
    with "1.IH" "1.prems" False have "length (digits_of_int (n div 10)) \<le> max 1 k'" by simp
    moreover have "0 < k'"
      using False "1.prems" k by (cases k') auto
    ultimately show ?thesis using False k by (simp add: digits_of_int.simps [of n])
  qed
qed

lemma space_is_py_space [simp]: "is_py_space (CHR '' '')"
  by (simp add: is_py_space_def)

lemma digits_of_int_all_digits: "0 \<le> n \<Longrightarrow> all_digits (digits_of_int n)"
  by (auto simp: all_digits_def digits_of_int_digits)

lemma digits_of_int_length_small:
  "0 \<le> n \<Longrightarrow> n < 2 ^ 53 \<Longrightarrow> length (digits_of_int n) \<le> max_str_digits"
  using digits_of_int_length_le [of n 16] by (simp add: max_str_digits_def)

lemma py_str_int_digits:
  "length (digits_of_int \<bar>i\<bar>) \<le> max_str_digits \<Longrightarrow>
   py_str_int i = Inr ((if i < 0 then ''-'' else []) @ digits_of_int \<bar>i\<bar>)"
  by (simp add: py_str_int_def)

lemma digits_of_int_zero [simp]: "digits_of_int 0 = ''0''"
  by (simp add: digits_of_int.simps digit_char_def char_of_def)

lemma py_int_of_digits_of_int:
  "0 \<le> n \<Longrightarrow> length (digits_of_int n) \<le> max_str_digits \<Longrightarrow>
   py_int_of_digits (digits_of_int n) = Inr n"
  using digits_of_int_all_digits [of n]
  by (simp add: py_int_of_digits_def all_digits_def filter_id_conv)

lemma digits_of_int_length_400:
  "0 \<le> n \<Longrightarrow> n < 10 ^ 400 \<Longrightarrow> length (digits_of_int n) \<le> max_str_digits"
  using digits_of_int_length_le [of n 400] by (simp add: max_str_digits_def)

lemma py_split_Nil [simp]: "py_split [] = []"
  by (simp add: py_split.simps)

lemma py_split_dropWhile: "py_split (dropWhile is_py_space s) = py_split s"
proof -
  have "dropWhile is_py_space (dropWhile is_py_space s) = dropWhile is_py_space s"
    by (induction s) auto
  then show ?thesis
    by (simp only: py_split.simps [of "dropWhile is_py_space s"] py_split.simps [of s])
qed

lemma py_split_spaces:
  "\<forall>c \<in> set sp. is_py_space c \<Longrightarrow> py_split (sp @ s) = py_split s"
proof -
  assume "\<forall>c \<in> set sp. is_py_space c"
  then have "dropWhile is_py_space (sp @ s) = dropWhile is_py_space s"
    by (induction sp) auto
  then show ?thesis
    by (metis py_split_dropWhile)
qed

lemma py_split_token:
  assumes "w \<noteq> []" "\<forall>c \<in> set w. \<not> is_py_space c" "rest = [] \<or> is_py_space (hd rest)"
  shows "py_split (w @ rest) = w # py_split rest"
proof -
  have d: "dropWhile is_py_space (w @ rest) = w @ rest"
    using assms(1,2) by (cases w) auto
  have tw: "takeWhile (\<lambda>c. \<not> is_py_space c) (w @ rest) = w"
    using assms(2,3) by (cases rest) (auto simp: takeWhile_append2)
  have dw: "dropWhile (\<lambda>c. \<not> is_py_space c) (w @ rest) = rest"
    using assms(2,3) by (cases rest) (auto simp: dropWhile_append2)
  show ?thesis
    using assms(1) by (simp add: py_split.simps [of "w @ rest"] d tw dw)
qed

lemma py_strip_Nil [simp]: "py_strip [] = []"
  by (simp add: py_strip_def py_lstrip_def py_rstrip_def)

lemma py_strip_spaces_left:
  "\<forall>c \<in> set sp. is_py_space c \<Longrightarrow> py_strip (sp @ s) = py_strip s"
  by (induction sp) (simp_all add: py_strip_def py_lstrip_def)

lemma py_lstrip_all_spaces: "\<forall>c \<in> set s. is_py_space c \<Longrightarrow> py_lstrip s = []"
  unfolding py_lstrip_def by (rule dropWhile_eq_Nil_conv [THEN iffD2]) auto

lemma py_rstrip_append_spaces:
  "\<forall>c \<in> set sp. is_py_space c \<Longrightarrow> py_rstrip (s @ sp) = py_rstrip s"
  unfolding py_rstrip_def by (simp only: rev_append, subst dropWhile_append2) simp_all

lemma py_strip_spaces_right:
  assumes "\<forall>c \<in> set sp. is_py_space c"
  shows "py_strip (s @ sp) = py_strip s"
proof (cases "\<forall>c \<in> set s. is_py_space c")
  case True
  have "py_lstrip (s @ sp) = []"
    using True assms by (intro py_lstrip_all_spaces) auto
  moreover have "py_lstrip s = []"
    using True by (rule py_lstrip_all_spaces)
  ultimately show ?thesis by (simp add: py_strip_def)
next
  case False
  then have "py_lstrip (s @ sp) = py_lstrip s @ sp"
    by (auto simp: py_lstrip_def dropWhile_append)
  with assms show ?thesis by (simp add: py_strip_def py_rstrip_append_spaces)
qed

lemma py_lstrip_id: "s = [] \<or> \<not> is_py_space (hd s) \<Longrightarrow> py_lstrip s = s"
  by (cases s) (auto simp: py_lstrip_def)

lemma py_rstrip_id: "s = [] \<or> \<not> is_py_space (last s) \<Longrightarrow> py_rstrip s = s"
  by (cases "rev s") (auto simp: py_rstrip_def last_rev [symmetric] simp del: last_rev)

lemma py_rstrip_append: "py_rstrip s @ rev (takeWhile is_py_space (rev s)) = s"
proof -
  have "rev (takeWhile is_py_space (rev s) @ dropWhile is_py_space (rev s)) = s"
    by simp
  then show ?thesis by (simp only: rev_append py_rstrip_def)
qed

lemma py_strip_ends:
  "py_strip s = [] \<or> (\<not> is_py_space (hd (py_strip s)) \<and> \<not> is_py_space (last (py_strip s)))"
proof (cases "py_strip s = []")
  case True
  then show ?thesis by simp
next
  case False
  define t where "t = py_lstrip s"
  have st: "py_strip s = py_rstrip t" by (simp add: py_strip_def t_def)
  have t: "t = [] \<or> \<not> is_py_space (hd t)"
  proof (cases "t = []")
    case False
    then show ?thesis unfolding t_def py_lstrip_def by (simp add: hd_dropWhile)
  qed simp
  have ne: "py_rstrip t \<noteq> []" using False st by simp
  have "\<not> is_py_space (last (py_rstrip t))"
  proof -
    have "dropWhile is_py_space (rev t) \<noteq> []" using ne by (simp add: py_rstrip_def)
    then have "\<not> is_py_space (hd (dropWhile is_py_space (rev t)))" by (rule hd_dropWhile)
    then show ?thesis by (simp add: py_rstrip_def last_rev)
  qed
  moreover have "hd (py_rstrip t) = hd t"
    using py_rstrip_append [of t] ne by (metis hd_append2)
  moreover have "t \<noteq> []" using ne by (auto simp: py_rstrip_def)
  ultimately show ?thesis using st t by simp
qed

lemma py_strip_id: "s = [] \<or> (\<not> is_py_space (hd s) \<and> \<not> is_py_space (last s)) \<Longrightarrow> py_strip s = s"
  by (auto simp: py_strip_def py_lstrip_id py_rstrip_id)

lemma py_strip_idem [simp]: "py_strip (py_strip s) = py_strip s"
  using py_strip_ends [of s] by (rule py_strip_id)

lemma int_of_digits_less: "\<forall>c \<in> set ds. is_digit c \<Longrightarrow> int_of_digits ds < 10 ^ length ds"
proof (induction ds rule: rev_induct)
  case Nil
  then show ?case by simp
next
  case (snoc x xs)
  then have "int_of_digits xs + 1 \<le> 10 ^ length xs" and "digit_value x < 10" using digit_value_range [of x] by simp_all
  then show ?case by (simp add: int_of_digits_append)
qed

lemma py_int_of_digits_str:
  assumes "py_int_of_digits s = Inr i"
  shows "length (digits_of_int \<bar>i\<bar>) \<le> max_str_digits"
proof -
  define ds where "ds = filter is_digit s"
  have i: "i = int_of_digits ds" and l: "length ds \<le> max_str_digits"
    using assms by (auto simp: py_int_of_digits_def ds_def Let_def split: if_splits)
  have d: "\<forall>c \<in> set ds. is_digit c" by (simp add: ds_def)
  then have "0 \<le> i" "i < 10 ^ length ds" using i int_of_digits_nonneg int_of_digits_less by simp_all
  then have "length (digits_of_int \<bar>i\<bar>) \<le> max 1 (length ds)"
    using digits_of_int_length_le [of i "length ds"] by simp
  then show ?thesis using l by (simp add: max_str_digits_def)
qed

end
