(* ===== verification/PyFloat.thy ===== *)
theory PyFloat
  imports Prelude
begin

text \<open>
  CPython's \<open>float\<close> (IEEE 754 binary64) as far as the program uses it. A finite
  double is the exact rational it denotes; \<open>round_binary64\<close> is round-to-nearest,
  ties-to-even, to a 53-bit significand with subnormals down to \<open>2\<^sup>-\<^sup>1\<^sup>0\<^sup>7\<^sup>4\<close>;
  a rounded magnitude of \<open>2\<^sup>1\<^sup>0\<^sup>2\<^sup>4\<close> or more is an overflow. The conversions the
  program performs are CPython's correctly rounded ones: \<^verbatim>\<open>float(int)\<close>
  (\<open>PyLong_AsDouble\<close>) and \<^verbatim>\<open>int / int\<close> (\<open>long_true_divide\<close>, used by
  \<^verbatim>\<open>Fraction.__float__\<close>) raise \<open>OverflowError\<close> on overflow, while
  \<^verbatim>\<open>float / float\<close> overflows to an infinity. The sign of a zero is not
  modelled: no branch of the program observes it.
\<close>

section \<open>Binary exponents\<close>

definition pow2 :: "int \<Rightarrow> rat" where
  "pow2 e = (if 0 \<le> e then of_int (2 ^ nat e) else inverse (of_int (2 ^ nat (- e))))"

text \<open>\<^verbatim>\<open>int.bit_length()\<close>: the number of binary digits of \<open>\<bar>n\<bar>\<close>.\<close>

function bit_length :: "int \<Rightarrow> nat" where
  "bit_length n = (if n = 0 then 0 else Suc (bit_length (\<bar>n\<bar> div 2)))"
  by pat_completeness auto
termination
  by (relation "measure (\<lambda>n. nat \<bar>n\<bar>)") auto

declare bit_length.simps [simp del]

text \<open>For a positive rational \<open>x\<close>, the exponent \<open>e\<close> with \<open>2\<^sup>e \<le> x < 2\<^sup>e\<^sup>+\<^sup>1\<close>.\<close>

definition binexp :: "rat \<Rightarrow> int" where
  "binexp x =
     (let (p, q) = quotient_of x;
          e = int (bit_length p) - int (bit_length q)
      in if x < pow2 e then e - 1 else e)"

section \<open>Rounding to binary64\<close>

text \<open>Round half to even, to an integer.\<close>

definition round_half_even :: "rat \<Rightarrow> int" where
  "round_half_even x =
     (let f = \<lfloor>x\<rfloor>; r = x - of_int f
      in if r < 1/2 then f else if 1/2 < r then f + 1 else if even f then f else f + 1)"

text \<open>
  The exponent of the last significand bit of the double nearest a positive \<open>a\<close>:
  53 bits below the leading one, but never below the subnormal quantum.
\<close>

definition f64_quantum :: "rat \<Rightarrow> int" where
  "f64_quantum a = max (binexp a - 52) (-1074)"

definition round_binary64 :: "rat \<Rightarrow> rat" where
  "round_binary64 x =
     (if x = 0 then 0
      else let a = \<bar>x\<bar>; k = f64_quantum a
           in sgn x * (of_int (round_half_even (a / pow2 k)) * pow2 k))"

definition f64_overflows :: "rat \<Rightarrow> bool" where
  "f64_overflows r \<longleftrightarrow> pow2 1024 \<le> \<bar>r\<bar>"

datatype f64 = Fin rat | PosInf | NegInf | NaN

text \<open>An IEEE operation's exact result, rounded; overflow gives an infinity.\<close>

definition f64_of_rat :: "rat \<Rightarrow> f64" where
  "f64_of_rat x =
     (let r = round_binary64 x
      in if f64_overflows r then (if 0 < x then PosInf else NegInf) else Fin r)"

text \<open>A CPython conversion into \<open>float\<close>, which raises on overflow.\<close>

definition py_float_of_rat :: "rat \<Rightarrow> f64 py" where
  "py_float_of_rat x =
     (let r = round_binary64 x in if f64_overflows r then Inl OverflowError else Inr (Fin r))"

section \<open>The operations the program performs\<close>

text \<open>\<^verbatim>\<open>float(i)\<close> for an int \<open>i\<close>.\<close>

definition py_float_of_int :: "int \<Rightarrow> f64 py" where
  "py_float_of_int i = py_float_of_rat (of_int i)"

text \<open>\<^verbatim>\<open>a / b\<close> for ints: the exact quotient, correctly rounded.\<close>

definition py_int_truediv :: "int \<Rightarrow> int \<Rightarrow> f64 py" where
  "py_int_truediv a b =
     (if b = 0 then Inl ZeroDivisionError else py_float_of_rat (of_int a / of_int b))"

text \<open>\<^verbatim>\<open>float(q)\<close> for a \<open>Fraction\<close>: \<^verbatim>\<open>numerator / denominator\<close>.\<close>

definition py_float_of_fraction :: "rat \<Rightarrow> f64 py" where
  "py_float_of_fraction x = (let (p, q) = quotient_of x in py_int_truediv p q)"

text \<open>
  \<^verbatim>\<open>x / i\<close> for a float \<open>x\<close> and an int \<open>i\<close>: \<open>i\<close> is converted first (which may
  raise), a zero divisor raises, and the IEEE quotient of the two doubles is returned.
\<close>

definition py_float_div_int :: "f64 \<Rightarrow> int \<Rightarrow> f64 py" where
  "py_float_div_int x i =
     (case py_float_of_int i of
        Inl e \<Rightarrow> Inl e
      | Inr y \<Rightarrow>
          (case y of
             Fin b \<Rightarrow>
               if b = 0 then Inl ZeroDivisionError
               else Inr (case x of
                           Fin a \<Rightarrow> f64_of_rat (a / b)
                         | PosInf \<Rightarrow> if 0 < b then PosInf else NegInf
                         | NegInf \<Rightarrow> if 0 < b then NegInf else PosInf
                         | NaN \<Rightarrow> NaN)
           | _ \<Rightarrow> Inr NaN))"

text \<open>\<^verbatim>\<open>x > 0\<close> for a float \<open>x\<close> (an exact comparison in CPython).\<close>

fun py_float_pos :: "f64 \<Rightarrow> bool" where
  "py_float_pos (Fin a) = (0 < a)"
| "py_float_pos PosInf = True"
| "py_float_pos NegInf = False"
| "py_float_pos NaN = False"

text \<open>\<^verbatim>\<open>Fraction(x)\<close> for a float: exact for finite values (\<^verbatim>\<open>as_integer_ratio\<close>).\<close>

fun py_fraction_of_float :: "f64 \<Rightarrow> rat py" where
  "py_fraction_of_float (Fin a) = Inr a"
| "py_fraction_of_float PosInf = Inl OverflowError"
| "py_fraction_of_float NegInf = Inl OverflowError"
| "py_fraction_of_float NaN = Inl ValueError"

section \<open>\<^verbatim>\<open>str(x)\<close> for a float\<close>

text \<open>
  CPython's \<^verbatim>\<open>repr\<close> of a double (\<^verbatim>\<open>float_repr_style = 'short'\<close>): the shortest
  decimal significand that reads back as the same double, the nearest one when two
  are equally short, written in positional notation when the decimal point position
  \<open>decpt\<close> satisfies \<open>-4 < decpt \<le> 16\<close> (with \<^verbatim>\<open>.0\<close> added to an integer) and in
  exponent notation otherwise.
\<close>

definition pow10 :: "int \<Rightarrow> rat" where
  "pow10 e = (if 0 \<le> e then of_int (10 ^ nat e) else inverse (of_int (10 ^ nat (- e))))"

text \<open>\<^verbatim>\<open>len(str(abs(n)))\<close>.\<close>

function decimal_length :: "int \<Rightarrow> nat" where
  "decimal_length n = (if \<bar>n\<bar> < 10 then 1 else Suc (decimal_length (\<bar>n\<bar> div 10)))"
  by pat_completeness auto
termination
  by (relation "measure (\<lambda>n. nat \<bar>n\<bar>)") auto

text \<open>For a positive rational \<open>a\<close>, the exponent \<open>E\<close> with \<open>10\<^sup>E \<le> a < 10\<^sup>E\<^sup>+\<^sup>1\<close>.\<close>

definition decexp :: "rat \<Rightarrow> int" where
  "decexp a =
     (let (p, q) = quotient_of a;
          l = int (decimal_length p) - int (decimal_length q)
      in if a < pow10 l then l - 1 else l)"

definition round_trips :: "rat \<Rightarrow> int \<Rightarrow> int \<Rightarrow> bool" where
  "round_trips a c j \<longleftrightarrow>
     (let r = round_binary64 (of_int c * pow10 j) in \<not> f64_overflows r \<and> r = a)"

text \<open>
  The significand \<open>c\<close> and exponent \<open>j\<close> (value \<open>c * 10\<^sup>j\<close>) of the shortest
  round-tripping decimal with at least \<open>p\<close> significant digits; 17 always suffice.
\<close>

function repr_digits :: "rat \<Rightarrow> int \<Rightarrow> nat \<Rightarrow> int \<times> int" where
  "repr_digits a e p =
     (let j = e - int p + 1; s = a / pow10 j; lo = \<lfloor>s\<rfloor>; hi = \<lceil>s\<rceil>;
          okl = round_trips a lo j; okh = round_trips a hi j
      in if okl \<and> okh then
           (if s - of_int lo < of_int hi - s then (lo, j)
            else if of_int hi - s < s - of_int lo then (hi, j)
            else if even lo then (lo, j) else (hi, j))
         else if okl then (lo, j)
         else if okh then (hi, j)
         else if 17 \<le> p then (round_half_even s, j)
         else repr_digits a e (Suc p))"
  by pat_completeness auto
termination
  by (relation "measure (\<lambda>(a, e, p). 17 - p)") auto

definition py_float_repr :: "f64 \<Rightarrow> string" where
  "py_float_repr v =
     (case v of
        PosInf \<Rightarrow> ''inf''
      | NegInf \<Rightarrow> ''-inf''
      | NaN \<Rightarrow> ''nan''
      | Fin x \<Rightarrow>
          if x = 0 then ''0.0''
          else
            let a = \<bar>x\<bar>;
                (c, j) = repr_digits a (decexp a) 1;
                full = digits_of_int c;
                ds = rev (dropWhile (\<lambda>ch. ch = CHR ''0'') (rev full));
                n = int (length ds);
                decpt = j + int (length full);
                body =
                  (if decpt \<le> -4 \<or> 16 < decpt then
                     (let ex = decpt - 1; ed = digits_of_int \<bar>ex\<bar>
                      in [hd ds] @ (if 1 < n then CHR ''.'' # tl ds else []) @
                         CHR ''e'' # (if ex < 0 then CHR ''-'' else CHR ''+'') #
                         (if length ed < 2 then CHR ''0'' # ed else ed))
                   else if decpt \<le> 0 then ''0.'' @ replicate (nat (- decpt)) (CHR ''0'') @ ds
                   else if n \<le> decpt then ds @ replicate (nat (decpt - n)) (CHR ''0'') @ ''.0''
                   else take (nat decpt) ds @ CHR ''.'' # drop (nat decpt) ds)
            in if x < 0 then CHR ''-'' # body else body)"

section \<open>The values of type \<^verbatim>\<open>float\<close>\<close>

text \<open>A finite double is a rational that rounding leaves unchanged and that does not overflow.\<close>

section \<open>Lemmas: binary exponents and exact rounding\<close>

lemma pow2_powi: "pow2 e = 2 powi e"
  by (simp add: pow2_def power_int_def power_one_over inverse_eq_divide)

lemma pow2_pos [simp]: "0 < pow2 e"
  by (simp add: pow2_powi)

lemma pow2_nonzero [simp]: "pow2 e \<noteq> 0"
  using pow2_pos [of e] by linarith

lemma pow2_add: "pow2 (a + b) = pow2 a * pow2 b"
  by (simp add: pow2_powi power_int_add)

lemma pow2_sub: "pow2 (a - b) = pow2 a / pow2 b"
  by (simp add: pow2_powi power_int_diff)

lemma pow2_of_nat [simp]: "pow2 (int n) = 2 ^ n"
  by (simp add: pow2_def)

lemma pow2_diff: "pow2 (int a - int b) = 2 ^ a / 2 ^ b"
  by (simp add: pow2_powi power_int_diff)

lemma pow2_mono: "a \<le> b \<Longrightarrow> pow2 a \<le> pow2 b"
  by (simp add: pow2_powi power_int_increasing)

lemma pow2_strict_mono: "a < b \<Longrightarrow> pow2 a < pow2 b"
  by (simp add: pow2_powi power_int_strict_increasing)

lemma pow2_le_iff [simp]: "pow2 a \<le> pow2 b \<longleftrightarrow> a \<le> b"
  by (meson linorder_not_le pow2_mono pow2_strict_mono)

lemma pow2_less_iff [simp]: "pow2 a < pow2 b \<longleftrightarrow> a < b"
  by (meson linorder_not_le pow2_mono pow2_strict_mono)

lemma bit_length_bounds:
  "0 < n \<Longrightarrow> 2 ^ (bit_length n - 1) \<le> n \<and> n < 2 ^ bit_length n"
proof (induction n rule: bit_length.induct)
  case (1 n)
  have bl: "bit_length n = Suc (bit_length (n div 2))"
    using "1.prems" by (simp add: bit_length.simps [of n])
  show ?case
  proof (cases "n div 2 = 0")
    case True
    then have "n = 1" using "1.prems" by linarith
    then show ?thesis by (simp add: bit_length.simps)
  next
    case False
    then have pos: "0 < n div 2" using "1.prems" by simp
    with "1.IH" "1.prems" have ih: "2 ^ (bit_length (n div 2) - 1) \<le> n div 2"
      "n div 2 < 2 ^ bit_length (n div 2)" by simp_all
    have "0 < bit_length (n div 2)"
      using ih(2) pos by (cases "bit_length (n div 2)") auto
    then have "2 ^ bit_length (n div 2) = 2 * (2::int) ^ (bit_length (n div 2) - 1)"
      by (metis Suc_diff_1 power_Suc)
    with ih "1.prems" show ?thesis by (simp add: bl) linarith
  qed
qed

lemma binexp_bounds:
  assumes "0 < x"
  shows "pow2 (binexp x) \<le> x \<and> x < pow2 (binexp x + 1)"
proof -
  obtain p q where pq: "quotient_of x = (p, q)" by (cases "quotient_of x")
  then have x: "x = of_int p / of_int q" and q: "0 < q"
    by (simp_all add: quotient_of_div quotient_of_denom_pos)
  with assms have p: "0 < p"
    by (simp add: zero_less_divide_iff)
  define e where "e = int (bit_length p) - int (bit_length q)"
  have bp: "2 ^ (bit_length p - 1) \<le> p" "p < 2 ^ bit_length p"
    using bit_length_bounds [OF p] by simp_all
  have bq: "2 ^ (bit_length q - 1) \<le> q" "q < 2 ^ bit_length q"
    using bit_length_bounds [OF q] by simp_all
  have np: "0 < bit_length p" using bp(2) p by (cases "bit_length p") auto
  have nq: "0 < bit_length q" using bq(2) q by (cases "bit_length q") auto
  have lo: "pow2 (e - 1) < x"
  proof -
    have "e - 1 = int (bit_length p - 1) - int (bit_length q)"
      using np by (simp add: e_def of_nat_diff)
    then have "pow2 (e - 1) = 2 ^ (bit_length p - 1) / 2 ^ bit_length q"
      by (simp add: pow2_diff)
    also have "\<dots> \<le> of_int p / 2 ^ bit_length q"
      using bp(1) by (simp add: divide_right_mono)
    also have "\<dots> < of_int p / of_int q"
      using bq(2) p q by (simp add: divide_strict_left_mono)
    finally show ?thesis by (simp add: x)
  qed
  have hi: "x < pow2 (e + 1)"
  proof -
    have "x = of_int p / of_int q" by (rule x)
    also have "\<dots> < 2 ^ bit_length p / of_int q"
      using bp(2) q by (simp add: divide_strict_right_mono)
    also have "\<dots> \<le> 2 ^ bit_length p / 2 ^ (bit_length q - 1)"
    proof -
      have "(2::rat) ^ (bit_length q - 1) \<le> of_int q"
        using bq(1) by (metis of_int_le_iff of_int_numeral of_int_power)
      then show ?thesis using q by (intro divide_left_mono) auto
    qed
    also have "e + 1 = int (bit_length p) - int (bit_length q - 1)"
      using nq by (simp add: e_def of_nat_diff)
    then have "2 ^ bit_length p / 2 ^ (bit_length q - 1) = pow2 (e + 1)"
      by (simp add: pow2_diff)
    finally show ?thesis .
  qed
  have "binexp x = (if x < pow2 e then e - 1 else e)"
    by (simp add: binexp_def pq e_def)
  with lo hi show ?thesis by auto
qed

lemma pow2_numeral [simp]: "pow2 (numeral n) = 2 ^ numeral n"
  by (simp add: pow2_def)

lemma abs_pow2 [simp]: "\<bar>pow2 e\<bar> = pow2 e"
  by (simp add: abs_of_pos)

lemma pow2_nonneg_exp: "0 \<le> e \<Longrightarrow> pow2 e = of_int (2 ^ nat e)"
  by (simp add: pow2_def)

lemma round_half_even_of_int [simp]: "round_half_even (of_int n) = n"
  by (simp add: round_half_even_def)

lemma floor_bounds_rat: "of_int \<lfloor>x\<rfloor> \<le> x \<and> x < of_int \<lfloor>x\<rfloor> + (1::rat)"
  by linarith

lemma round_half_even_le_int:
  assumes "x \<le> of_int k"
  shows "round_half_even x \<le> k"
proof -
  have f: "\<lfloor>x\<rfloor> \<le> k" using assms by (simp add: floor_le_iff)
  have "\<lfloor>x\<rfloor> = k \<Longrightarrow> x = of_int k"
    using assms floor_bounds_rat [of x] by simp
  then have "x - of_int \<lfloor>x\<rfloor> > 0 \<Longrightarrow> \<lfloor>x\<rfloor> < k"
    using f by fastforce
  with f show ?thesis
    unfolding round_half_even_def Let_def by auto
qed

lemma round_half_even_ge_int:
  assumes "of_int k \<le> x"
  shows "k \<le> round_half_even x"
proof -
  have "k \<le> \<lfloor>x\<rfloor>" using assms by (simp add: le_floor_iff)
  then show ?thesis
    unfolding round_half_even_def Let_def by auto
qed

lemma round_half_even_err: "\<bar>of_int (round_half_even x) - x\<bar> \<le> 1/2"
proof -
  have "of_int \<lfloor>x\<rfloor> \<le> x" "x < of_int \<lfloor>x\<rfloor> + 1"
    by linarith+
  then show ?thesis
    unfolding round_half_even_def Let_def by (auto simp: abs_if; linarith)
qed

lemma round_binary64_exact:
  assumes m: "\<bar>m\<bar> < 2 ^ 53" and k: "-1074 \<le> k"
  shows "round_binary64 (of_int m * pow2 k) = of_int m * pow2 k"
proof (cases "m = 0")
  case True
  then show ?thesis by (simp add: round_binary64_def)
next
  case False
  define x where "x = of_int m * pow2 k"
  define a where "a = \<bar>x\<bar>"
  have a_eq: "a = of_int \<bar>m\<bar> * pow2 k"
    by (simp add: a_def x_def abs_mult)
  have apos: "0 < a"
    using False by (simp add: a_eq)
  have "of_int \<bar>m\<bar> < (2::rat) ^ 53"
    using m by (metis of_int_less_iff of_int_numeral of_int_power)
  then have "a < pow2 53 * pow2 k"
    by (simp add: a_eq)
  then have "a < pow2 (53 + k)"
    by (simp add: pow2_add)
  with binexp_bounds [OF apos] have "pow2 (binexp a) < pow2 (53 + k)"
    by linarith
  then have "binexp a - 52 \<le> k" by simp
  with k have qk: "f64_quantum a \<le> k"
    by (simp add: f64_quantum_def)
  define d where "d = k - f64_quantum a"
  have d: "0 \<le> d" using qk by (simp add: d_def)
  have "a / pow2 (f64_quantum a) = of_int \<bar>m\<bar> * pow2 d"
    by (simp add: a_eq d_def pow2_sub)
  also have "\<dots> = of_int (\<bar>m\<bar> * 2 ^ nat d)"
    using d by (simp add: pow2_nonneg_exp)
  finally have r0: "a / pow2 (f64_quantum a) = of_int (\<bar>m\<bar> * 2 ^ nat d)" .
  have r: "round_half_even (a / pow2 (f64_quantum a)) = \<bar>m\<bar> * 2 ^ nat d"
    by (simp only: r0 round_half_even_of_int)
  have pd: "pow2 d = 2 ^ nat d"
    using d by (simp add: pow2_nonneg_exp)
  have "pow2 d * pow2 (f64_quantum a) = pow2 k"
    by (simp add: d_def pow2_add [symmetric])
  then have ra: "of_int (\<bar>m\<bar> * 2 ^ nat d) * pow2 (f64_quantum a) = a"
    by (simp add: a_eq pd [symmetric] mult.assoc)
  have "round_binary64 x
        = sgn x * (of_int (round_half_even (a / pow2 (f64_quantum a))) * pow2 (f64_quantum a))"
    using False by (simp add: round_binary64_def x_def a_def Let_def)
  also have "\<dots> = sgn x * a"
    by (simp only: r ra)
  finally have "round_binary64 x = sgn x * a" .
  then show ?thesis
    by (simp add: a_def x_def sgn_mult_abs)
qed

lemma round_binary64_int:
  assumes "\<bar>n\<bar> < 2 ^ 53"
  shows "round_binary64 (of_int n) = of_int n"
  using round_binary64_exact [OF assms, of 0] by (simp add: pow2_def)

section \<open>Lemmas: small integers are exact\<close>

lemma f64_small_int_no_overflow: "\<bar>n\<bar> < 2 ^ 53 \<Longrightarrow> \<not> f64_overflows (of_int n)"
proof -
  assume n: "\<bar>n\<bar> < 2 ^ 53"
  have "\<bar>(of_int n :: rat)\<bar> < 2 ^ 53" using n by (metis of_int_abs of_int_less_iff of_int_numeral of_int_power)
  also have "(2 :: rat) ^ 53 \<le> pow2 1024" by simp
  finally show ?thesis by (simp add: f64_overflows_def)
qed

lemma py_float_of_rat_small_int:
  "\<bar>n\<bar> < 2 ^ 53 \<Longrightarrow> py_float_of_rat (of_int n) = Inr (Fin (of_int n))"
  by (simp add: py_float_of_rat_def round_binary64_int f64_small_int_no_overflow)

lemma py_float_of_fraction_small_int:
  "\<bar>n\<bar> < 2 ^ 53 \<Longrightarrow> py_float_of_fraction (of_int n) = Inr (Fin (of_int n))"
  by (simp add: py_float_of_fraction_def py_int_truediv_def py_float_of_rat_small_int)

section \<open>Lemmas: overflow of \<^verbatim>\<open>float(int)\<close>\<close>

lemma round_binary64_abs_ge:
  assumes x: "x \<noteq> 0" and e: "-1022 \<le> binexp \<bar>x\<bar>"
  shows "pow2 (binexp \<bar>x\<bar>) \<le> \<bar>round_binary64 x\<bar>"
proof -
  define a where "a = \<bar>x\<bar>"
  have apos: "0 < a" using x by (simp add: a_def)
  have k: "f64_quantum a = binexp a - 52" using e by (simp add: f64_quantum_def a_def)
  have q: "a / pow2 (f64_quantum a) = a / pow2 (binexp a) * pow2 52"
    by (simp add: k pow2_sub del: pow2_numeral)
  have "1 \<le> a / pow2 (binexp a)"
    using binexp_bounds [OF apos] by simp
  then have "1 * pow2 52 \<le> a / pow2 (binexp a) * pow2 52"
    by (intro mult_right_mono) simp_all
  then have "pow2 52 \<le> a / pow2 (f64_quantum a)"
    by (simp only: q)
  then have "of_int (2 ^ 52) \<le> a / pow2 (f64_quantum a)" by simp
  then have R: "2 ^ 52 \<le> round_half_even (a / pow2 (f64_quantum a))"
    by (rule round_half_even_ge_int)
  have "pow2 (binexp a) = of_int (2 ^ 52) * pow2 (f64_quantum a)"
    by (simp add: k pow2_sub)
  also have "\<dots> \<le> of_int (round_half_even (a / pow2 (f64_quantum a))) * pow2 (f64_quantum a)"
    using R by (intro mult_right_mono) (simp_all add: less_imp_le)
  also have "\<dots> = \<bar>round_binary64 x\<bar>"
    using x R by (simp add: round_binary64_def a_def Let_def abs_mult)
  finally show ?thesis by (simp add: a_def)
qed

lemma py_float_of_int_overflow:
  assumes "pow2 1024 \<le> \<bar>of_int y\<bar>"
  shows "py_float_of_int y = Inl OverflowError"
proof -
  have y: "(of_int y :: rat) \<noteq> 0" using assms by auto
  have b: "1024 \<le> binexp \<bar>of_int y\<bar>"
  proof (rule ccontr)
    assume "\<not> 1024 \<le> binexp \<bar>of_int y\<bar>"
    then have "pow2 (binexp \<bar>of_int y\<bar> + 1) \<le> pow2 1024"
      by (simp only: pow2_le_iff)
    moreover have "\<bar>of_int y\<bar> < pow2 (binexp \<bar>of_int y\<bar> + 1)"
      using binexp_bounds [of "\<bar>of_int y\<bar>"] y by simp
    ultimately show False using assms by linarith
  qed
  have "pow2 1024 \<le> pow2 (binexp \<bar>of_int y\<bar>)" "-1022 \<le> binexp \<bar>of_int y\<bar>"
    using b by (simp_all del: pow2_numeral)
  then have "pow2 1024 \<le> \<bar>round_binary64 (of_int y)\<bar>"
    using round_binary64_abs_ge [OF y] by (meson order_trans)
  then show ?thesis
    by (simp add: py_float_of_int_def py_float_of_rat_def f64_overflows_def del: pow2_numeral)
qed

section \<open>Lemmas: conversions return finite floats\<close>

lemma py_float_of_rat_Fin: "py_float_of_rat x = Inr v \<Longrightarrow> \<exists>r. v = Fin r"
  by (auto simp: py_float_of_rat_def Let_def split: if_splits)

lemma py_float_of_fraction_Fin: "py_float_of_fraction x = Inr v \<Longrightarrow> \<exists>r. v = Fin r"
  by (auto simp: py_float_of_fraction_def py_int_truediv_def split: prod.splits if_splits
           dest: py_float_of_rat_Fin)

lemma py_float_div_int_small:
  "y \<noteq> 0 \<Longrightarrow> \<bar>y\<bar> < 2 ^ 53 \<Longrightarrow> py_float_div_int (Fin q) y = Inr (f64_of_rat (q / of_int y))"
  by (simp add: py_float_div_int_def py_float_of_int_def py_float_of_rat_small_int)

section \<open>Lemmas: rounding is idempotent\<close>

lemma round_half_even_nonneg: "0 \<le> x \<Longrightarrow> 0 \<le> round_half_even x"
  using round_half_even_ge_int [of 0 x] by simp

lemma round_binary64_significand:
  assumes "x \<noteq> 0"
  shows "round_half_even (\<bar>x\<bar> / pow2 (f64_quantum \<bar>x\<bar>)) \<le> 2 ^ 53"
proof -
  define a where "a = \<bar>x\<bar>"
  have apos: "0 < a" using assms by (simp add: a_def)
  have k: "binexp a - 52 \<le> f64_quantum a" by (simp add: f64_quantum_def)
  have "a < pow2 (binexp a + 1)" using binexp_bounds [OF apos] by simp
  also have "\<dots> \<le> pow2 53 * pow2 (f64_quantum a)"
    using k by (simp add: pow2_add [symmetric] del: pow2_numeral)
  finally have "a / pow2 (f64_quantum a) < pow2 53"
    by (simp add: divide_less_eq del: pow2_numeral)
  then have "a / pow2 (f64_quantum a) \<le> of_int (2 ^ 53)" by simp
  then show ?thesis unfolding a_def by (rule round_half_even_le_int)
qed

lemma round_binary64_idem: "round_binary64 (round_binary64 x) = round_binary64 x"
proof (cases "x = 0")
  case True
  then show ?thesis by (simp add: round_binary64_def)
next
  case False
  define k where "k = f64_quantum \<bar>x\<bar>"
  define R where "R = round_half_even (\<bar>x\<bar> / pow2 k)"
  have R0: "0 \<le> R" unfolding R_def by (rule round_half_even_nonneg) (simp add: less_imp_le)
  have R1: "R \<le> 2 ^ 53" using round_binary64_significand [OF False] by (simp add: R_def k_def)
  have k0: "-1074 \<le> k" by (simp add: k_def f64_quantum_def)
  define sg :: int where "sg = (if 0 < x then 1 else - 1)"
  have sg: "sgn x = of_int sg" "\<bar>sg\<bar> = 1" using False by (simp_all add: sg_def)
  have y: "round_binary64 x = of_int (sg * R) * pow2 k"
    using False by (simp add: round_binary64_def R_def k_def Let_def sg)
  show ?thesis
  proof (cases "R = 2 ^ 53")
    case True
    have "round_binary64 x = of_int (sg * 2 ^ 52) * pow2 (k + 1)"
      using pow2_numeral [of "num.One"] by (simp add: y True pow2_add del: pow2_numeral)
    moreover have "\<bar>sg * 2 ^ 52\<bar> < (2::int) ^ 53"
      by (simp add: abs_mult sg)
    ultimately show ?thesis
      using k0 by (simp only:) (rule round_binary64_exact; simp)
  next
    case False
    then have "\<bar>sg * R\<bar> < 2 ^ 53" using R0 R1 by (simp add: abs_mult sg)
    then show ?thesis
      using k0 by (simp only: y) (rule round_binary64_exact; simp)
  qed
qed

lemma py_float_of_rat_float:
  "py_float_of_rat x = Inr (Fin r) \<Longrightarrow> round_binary64 r = r \<and> \<not> f64_overflows r"
  by (auto simp: py_float_of_rat_def Let_def round_binary64_idem split: if_splits)

lemma py_float_of_fraction_float:
  "py_float_of_fraction x = Inr (Fin r) \<Longrightarrow> round_binary64 r = r \<and> \<not> f64_overflows r"
  by (auto simp: py_float_of_fraction_def py_int_truediv_def split: prod.splits if_splits
           dest: py_float_of_rat_float)

lemma f64_of_rat_float: "round_binary64 r = r \<Longrightarrow> \<not> f64_overflows r \<Longrightarrow> f64_of_rat r = Fin r"
  by (simp add: f64_of_rat_def)

section \<open>Error bounds and the type of results\<close>

lemma round_binary64_err_quantum:
  "\<bar>round_binary64 x - x\<bar> \<le> pow2 (f64_quantum \<bar>x\<bar>) / 2"
proof (cases "x = 0")
  case True
  then show ?thesis by (simp add: round_binary64_def less_imp_le)
next
  case False
  define a where "a = \<bar>x\<bar>"
  define k where "k = f64_quantum a"
  have e: "\<bar>of_int (round_half_even (a / pow2 k)) - a / pow2 k\<bar> \<le> 1 / 2"
    by (rule round_half_even_err)
  have "round_binary64 x - x = sgn x * (of_int (round_half_even (a / pow2 k)) * pow2 k - a)"
    using False by (simp add: round_binary64_def a_def k_def Let_def algebra_simps abs_mult_sgn mult.commute)
  also have "of_int (round_half_even (a / pow2 k)) * pow2 k - a
             = (of_int (round_half_even (a / pow2 k)) - a / pow2 k) * pow2 k"
    by (simp add: algebra_simps)
  finally have "\<bar>round_binary64 x - x\<bar> = \<bar>of_int (round_half_even (a / pow2 k)) - a / pow2 k\<bar> * pow2 k"
    using False by (simp add: abs_mult abs_sgn_eq)
  also have "\<dots> \<le> 1 / 2 * pow2 k"
    using e by (intro mult_right_mono) (simp_all add: less_imp_le)
  finally show ?thesis by (simp add: a_def k_def)
qed

lemma round_binary64_rel_err:
  assumes "-1022 \<le> binexp \<bar>x\<bar>"
  shows "\<bar>round_binary64 x - x\<bar> \<le> \<bar>x\<bar> / pow2 53"
proof (cases "x = 0")
  case True
  then show ?thesis by (simp add: round_binary64_def)
next
  case False
  have k: "f64_quantum \<bar>x\<bar> = binexp \<bar>x\<bar> - 52" using assms by (simp add: f64_quantum_def)
  have "pow2 (binexp \<bar>x\<bar>) \<le> \<bar>x\<bar>" using binexp_bounds [of "\<bar>x\<bar>"] False by simp
  then have "pow2 (binexp \<bar>x\<bar>) / pow2 53 \<le> \<bar>x\<bar> / pow2 53"
    by (rule divide_right_mono) (simp add: less_imp_le)
  moreover have "pow2 (f64_quantum \<bar>x\<bar>) / 2 = pow2 (binexp \<bar>x\<bar>) / pow2 53"
    by (simp add: k pow2_sub)
  ultimately have "pow2 (f64_quantum \<bar>x\<bar>) / 2 \<le> \<bar>x\<bar> / pow2 53" by simp
  with round_binary64_err_quantum [of x] show ?thesis by linarith
qed

lemma py_float_of_rat_double:
  "round_binary64 x = x \<Longrightarrow> \<not> f64_overflows x \<Longrightarrow> py_float_of_rat x = Inr (Fin x)"
  by (simp add: py_float_of_rat_def)

text \<open>
  C29. A correctly rounded float operation that does not overflow is within a relative error of \<open>2\<^sup>-\<^sup>5\<^sup>3\<close> of the exact result, in the normal range; this bounds the error of \<^verbatim>\<open>qty / yield_number\<close>, which the specification wants exact.
\<close>

theorem f64_of_rat_rel_err:
  assumes "f64_of_rat x = Fin r" "-1022 \<le> binexp \<bar>x\<bar>"
  shows "\<bar>r - x\<bar> \<le> \<bar>x\<bar> / pow2 53"
proof -
  have "r = round_binary64 x" using assms(1) by (simp add: f64_of_rat_def Let_def split: if_splits)
  then show ?thesis using round_binary64_rel_err [OF assms(2)] by simp
qed

theorem f64_of_rat_rel_err_witness:
  "f64_of_rat (1 / 3) = Fin (6004799503160661 / 18014398509481984) \<and>
   \<bar>6004799503160661 / 18014398509481984 - 1 / 3\<bar> \<le> \<bar>1 / 3 :: rat\<bar> / pow2 53"
proof -
  have f: "f64_of_rat (1 / 3) = Fin (6004799503160661 / 18014398509481984)" by code_simp
  have b: "-1022 \<le> binexp \<bar>1 / 3 :: rat\<bar>" by code_simp
  show ?thesis using f f64_of_rat_rel_err [OF f b] by simp
qed

end
