(* ===== verification/PyFraction.thy ===== *)
theory PyFraction
  imports Prelude
begin

text \<open>
  The two operations of CPython 3.11's \<^verbatim>\<open>fractions.Fraction\<close> that the program
  calls: construction from a string (\<^verbatim>\<open>Fraction(s)\<close>, by the regular expression
  \<^verbatim>\<open>_RATIONAL_FORMAT\<close>) and \<^verbatim>\<open>limit_denominator\<close>. A \<open>Fraction\<close> is always
  kept in lowest terms with a positive denominator, which is what HOL's \<open>rat\<close> is:
  \<open>quotient_of\<close> gives the pair \<^verbatim>\<open>(numerator, denominator)\<close>.
\<close>

section \<open>\<^verbatim>\<open>Fraction(s)\<close>\<close>

text \<open>The regular expression \<^verbatim>\<open>\d+(_\d+)*\<close>: digits, single underscores between them.\<close>

fun ud_tail :: "string \<Rightarrow> bool" where
  "ud_tail [] = True"
| "ud_tail (c # cs) =
     (if is_digit c then ud_tail cs
      else c = CHR ''_'' \<and> (case cs of [] \<Rightarrow> False | d # ds \<Rightarrow> is_digit d \<and> ud_tail ds))"

definition ud_run :: "string \<Rightarrow> bool" where
  "ud_run s = (case s of [] \<Rightarrow> False | c # cs \<Rightarrow> is_digit c \<and> ud_tail cs)"

definition is_ud_char :: "char \<Rightarrow> bool" where
  "is_ud_char c \<longleftrightarrow> is_digit c \<or> c = CHR ''_''"

text \<open>The groups of a match of \<^verbatim>\<open>_RATIONAL_FORMAT\<close>; \<open>None\<close> for a group that did not take part.\<close>

record rational_match =
  rm_sign :: string
  rm_num :: string
  rm_denom :: "string option"
  rm_decimal :: "string option"
  rm_exp :: "string option"

text \<open>\<^verbatim>\<open>(?:E(?P<exp>[-+]?\d+(_\d+)*))?\<close> followed by the end of the string, case-insensitive.\<close>

definition match_exp :: "string \<Rightarrow> string option option" where
  "match_exp r =
     (case r of
        [] \<Rightarrow> Some None
      | c # cs \<Rightarrow>
          if c = CHR ''E'' \<or> c = CHR ''e'' then
            (let digits = (case cs of s # ds \<Rightarrow> if s = CHR ''-'' \<or> s = CHR ''+'' then ds else cs | [] \<Rightarrow> [])
             in if ud_run digits then Some (Some cs) else None)
          else None)"

text \<open>
  \<^verbatim>\<open>\A\s*(?P<sign>[-+]?)(?=\d|\.\d)(?P<num>\d*|\d+(_\d+)*)\<close> followed by either
  \<^verbatim>\<open>/(?P<denom>\d+(_\d+)*)\<close> or an optional \<^verbatim>\<open>\.(?P<decimal>\d*|\d+(_\d+)*)\<close>
  and an optional exponent, then \<^verbatim>\<open>\s*\Z\<close>. Each group of digits and underscores
  is taken maximally: no shorter choice lets the rest of the pattern match.
\<close>

definition match_rational :: "string \<Rightarrow> rational_match option" where
  "match_rational s =
     (let t = py_strip s;
          (sg, r) = (case t of
                       c # cs \<Rightarrow> if c = CHR ''-'' \<or> c = CHR ''+'' then ([c], cs) else ([], t)
                     | [] \<Rightarrow> ([], []));
          lookahead = (case r of
                         c # cs \<Rightarrow> is_digit c \<or> (c = CHR ''.'' \<and> cs \<noteq> [] \<and> is_digit (hd cs))
                       | [] \<Rightarrow> False);
          num = takeWhile is_ud_char r;
          r1 = dropWhile is_ud_char r
      in if \<not> lookahead \<or> (num \<noteq> [] \<and> \<not> ud_run num) then None
         else (case r1 of
                 c # r2 \<Rightarrow>
                   if c = CHR ''/'' then
                     (if ud_run r2
                      then Some \<lparr>rm_sign = sg, rm_num = num, rm_denom = Some r2,
                                 rm_decimal = None, rm_exp = None\<rparr>
                      else None)
                   else if c = CHR ''.'' then
                     (let dec = takeWhile is_ud_char r2; r3 = dropWhile is_ud_char r2
                      in if dec \<noteq> [] \<and> \<not> ud_run dec then None
                         else map_option (\<lambda>ex. \<lparr>rm_sign = sg, rm_num = num, rm_denom = None,
                                                 rm_decimal = Some dec, rm_exp = ex\<rparr>)
                                         (match_exp r3))
                   else map_option (\<lambda>ex. \<lparr>rm_sign = sg, rm_num = num, rm_denom = None,
                                           rm_decimal = None, rm_exp = ex\<rparr>) (match_exp r1)
               | [] \<Rightarrow> Some \<lparr>rm_sign = sg, rm_num = num, rm_denom = None,
                             rm_decimal = None, rm_exp = None\<rparr>))"

text \<open>\<^verbatim>\<open>int(s)\<close> for a string matched as \<^verbatim>\<open>[-+]?\d+(_\d+)*\<close>.\<close>

definition py_int_of_signed :: "string \<Rightarrow> int py" where
  "py_int_of_signed s =
     (case s of
        c # cs \<Rightarrow>
          if c = CHR ''-'' then map_sum id uminus (py_int_of_digits cs)
          else if c = CHR ''+'' then py_int_of_digits cs
          else py_int_of_digits s
      | [] \<Rightarrow> py_int_of_digits s)"

text \<open>
  The body of \<^verbatim>\<open>Fraction.__new__\<close> for a string argument: the numerator, then the
  denominator or the decimal part and the exponent, then the sign, then the zero check.
\<close>

definition fraction_of_str :: "string \<Rightarrow> rat py" where
  "fraction_of_str s =
     (case match_rational s of
        None \<Rightarrow> Inl ValueError
      | Some m \<Rightarrow>
          py_bind (py_int_of_digits (if rm_num m = [] then ''0'' else rm_num m)) (\<lambda>num.
          py_bind (case rm_denom m of
                     Some dn \<Rightarrow> map_sum id (\<lambda>d. (num, d)) (py_int_of_digits dn)
                   | None \<Rightarrow>
                       py_bind (case rm_decimal m of
                                  Some dec \<Rightarrow>
                                    if dec = [] then Inr (num, 1)
                                    else map_sum id
                                           (\<lambda>dv. (num * 10 ^ length (filter is_digit dec) + dv,
                                                  10 ^ length (filter is_digit dec)))
                                           (py_int_of_digits dec)
                                | None \<Rightarrow> Inr (num, 1)) (\<lambda>(n, d).
                       case rm_exp m of
                         None \<Rightarrow> Inr (n, d)
                       | Some ex \<Rightarrow>
                           map_sum id (\<lambda>e. if 0 \<le> e then (n * 10 ^ nat e, d) else (n, d * 10 ^ nat (- e)))
                             (py_int_of_signed ex))) (\<lambda>(n, d).
          let n' = (if rm_sign m = ''-'' then - n else n)
          in if d = 0 then Inl ZeroDivisionError else Inr (of_int n' / of_int d))))"

section \<open>\<^verbatim>\<open>Fraction.limit_denominator\<close>\<close>

text \<open>\<^verbatim>\<open>Fraction(a, b)\<close> for ints.\<close>

definition py_fraction :: "int \<Rightarrow> int \<Rightarrow> rat py" where
  "py_fraction a b = (if b = 0 then Inl ZeroDivisionError else Inr (of_int a / of_int b))"

text \<open>
  The \<^verbatim>\<open>while True\<close> loop: the continued-fraction expansion of \<open>n/d\<close>, with the
  convergents \<open>p0/q0\<close> and \<open>p1/q1\<close>, stopped before a denominator exceeds the bound.
  \<^verbatim>\<open>n//d\<close> raises on \<open>d = 0\<close>; the loop terminates because \<open>\<bar>d\<bar>\<close> decreases.
\<close>

function ld_loop :: "int \<Rightarrow> int \<times> int \<times> int \<times> int \<Rightarrow> int \<times> int \<Rightarrow> (int \<times> int \<times> int \<times> int) py" where
  "ld_loop max_den (p0, q0, p1, q1) (n, d) =
     (case py_floordiv n d of
        Inl e \<Rightarrow> Inl e
      | Inr a \<Rightarrow>
          (let q2 = q0 + a * q1
           in if max_den < q2 then Inr (p0, q0, p1, q1)
              else ld_loop max_den (p1, q1, p0 + a * p1, q2) (d, n - a * d)))"
  by pat_completeness auto
termination
  by (relation "measure (\<lambda>(_, _, (_, d)). nat \<bar>d\<bar>)")
     (auto simp: py_floordiv_Inr floordiv_remainder_less)

declare ld_loop.simps [simp del]

text \<open>
  \<^verbatim>\<open>limit_denominator(max_denominator)\<close>: the value itself when its denominator is
  small enough, otherwise the closer of the two bounds the loop leaves, the last
  convergent \<open>p1/q1\<close> winning a tie.
\<close>

definition limit_denominator :: "int \<Rightarrow> rat \<Rightarrow> rat py" where
  "limit_denominator max_den x =
     (if max_den < 1 then Inl ValueError
      else let (num, den) = quotient_of x
           in if den \<le> max_den then Inr x
              else py_bind (ld_loop max_den (0, 1, 1, 0) (num, den)) (\<lambda>(p0, q0, p1, q1).
                   py_bind (py_floordiv (max_den - q0) q1) (\<lambda>k.
                   py_bind (py_fraction (p0 + k * p1) (q0 + k * q1)) (\<lambda>bound1.
                   py_bind (py_fraction p1 q1) (\<lambda>bound2.
                   Inr (if \<bar>bound2 - x\<bar> \<le> \<bar>bound1 - x\<bar> then bound2 else bound1))))))"

text \<open>
  The invariant of \<open>ld_loop\<close> after its first iteration: the denominator of the
  input is \<open>q1 * n + q0 * d\<close>, \<open>n\<close> and \<open>d\<close> stay coprime with \<open>0 \<le> d < n\<close>, and
  both denominators are within the bound.
\<close>

definition ld_inv :: "int \<Rightarrow> int \<Rightarrow> int \<times> int \<times> int \<times> int \<Rightarrow> int \<times> int \<Rightarrow> bool" where
  "ld_inv max_den den s nd \<longleftrightarrow>
     (case (s, nd) of ((p0, q0, p1, q1), (n, d)) \<Rightarrow>
        den = q1 * n + q0 * d \<and> gcd n d = 1 \<and> 0 \<le> d \<and> d < n \<and>
        0 \<le> q0 \<and> q0 \<le> max_den \<and> 1 \<le> q1 \<and> q1 \<le> max_den)"

text \<open>
  The continued-fraction invariant of \<open>ld_loop\<close>: the numerator of the input is
  \<open>p1 * n + p0 * d\<close>, and the two convergents \<open>p0/q0\<close> and \<open>p1/q1\<close> are neighbours
  (their determinant is \<open>\<plusminus>1\<close>).
\<close>

definition ld_cf :: "int \<Rightarrow> int \<times> int \<times> int \<times> int \<Rightarrow> int \<times> int \<Rightarrow> bool" where
  "ld_cf num s nd \<longleftrightarrow>
     (case (s, nd) of ((p0, q0, p1, q1), (n, d)) \<Rightarrow>
        num = p1 * n + p0 * d \<and> \<bar>p1 * q0 - p0 * q1\<bar> = 1)"

text \<open>The default argument \<^verbatim>\<open>max_denominator=1000000\<close>.\<close>

definition default_max_denominator :: int where
  "default_max_denominator = 1000000"

section \<open>Lemmas: \<open>limit_denominator\<close> never raises and bounds the denominator\<close>

lemma ld_inv_step:
  assumes inv: "ld_inv max_den den (p0, q0, p1, q1) (n, d)"
    and d: "d \<noteq> 0" and q2: "q0 + n div d * q1 \<le> max_den"
  shows "ld_inv max_den den (p1, q1, p0 + n div d * p1, q0 + n div d * q1) (d, n - n div d * d)"
proof -
  let ?a = "n div d"
  from inv have den: "den = q1 * n + q0 * d" and g: "gcd n d = 1" and dn: "0 \<le> d" "d < n"
    and q: "0 \<le> q0" "q0 \<le> max_den" "1 \<le> q1" "q1 \<le> max_den"
    by (simp_all add: ld_inv_def)
  have dpos: "0 < d" using d dn by simp
  have r: "n - ?a * d = n mod d" by (simp add: minus_div_mult_eq_mod)
  have a1: "1 \<le> ?a" using dpos dn pos_imp_zdiv_pos_iff [of d n] by simp
  have "den = (q0 + ?a * q1) * d + q1 * (n - ?a * d)"
    by (simp add: den algebra_simps)
  moreover have "gcd d (n - ?a * d) = 1"
    using g by (simp add: r gcd_red_int [symmetric])
  moreover have "0 \<le> n - ?a * d" "n - ?a * d < d"
    using dpos by (simp_all add: r)
  moreover have "1 \<le> q0 + ?a * q1"
  proof -
    have "1 * 1 \<le> ?a * q1" using a1 q(3) by (intro mult_mono) simp_all
    then show ?thesis using q(1) by simp
  qed
  ultimately show ?thesis
    using q q2 dpos by (simp add: ld_inv_def)
qed

lemma ld_inv_d_nonzero:
  assumes "ld_inv max_den den (p0, q0, p1, q1) (n, d)" and "max_den < den"
  shows "d \<noteq> 0"
proof
  assume d: "d = 0"
  with assms(1) have "gcd n 0 = 1" "0 < n" and den: "den = q1 * n" and "q1 \<le> max_den"
    by (simp_all add: ld_inv_def)
  then have "n = 1" by simp
  with den \<open>q1 \<le> max_den\<close> assms(2) show False by simp
qed

lemma ld_cf_step:
  "ld_cf num (p0, q0, p1, q1) (n, d) \<Longrightarrow> ld_cf num (p1, q1, p0 + a * p1, q0 + a * q1) (d, n - a * d)"
proof -
  assume "ld_cf num (p0, q0, p1, q1) (n, d)"
  moreover have "(p0 + a * p1) * d + p1 * (n - a * d) = p1 * n + p0 * d" by (simp add: algebra_simps)
  moreover have "(p0 + a * p1) * q1 - p1 * (q0 + a * q1) = - (p1 * q0 - p0 * q1)" by (simp add: algebra_simps)
  moreover have "\<bar>p0 * q1 - p1 * q0\<bar> = \<bar>p1 * q0 - p0 * q1\<bar>" by linarith
  ultimately show ?thesis by (simp add: ld_cf_def)
qed

lemma ld_loop_exit:
  assumes "ld_inv max_den den s nd" "ld_cf num s nd" "max_den < den"
  shows "\<exists>p0 q0 p1 q1 n d. ld_loop max_den s nd = Inr (p0, q0, p1, q1) \<and>
           ld_inv max_den den (p0, q0, p1, q1) (n, d) \<and> ld_cf num (p0, q0, p1, q1) (n, d) \<and>
           d \<noteq> 0 \<and> max_den < q0 + n div d * q1"
  using assms
proof (induction max_den s nd rule: ld_loop.induct)
  case (1 max_den p0 q0 p1 q1 n d)
  have d: "d \<noteq> 0" using "1.prems"(1,3) by (rule ld_inv_d_nonzero)
  then have fd: "py_floordiv n d = Inr (n div d)" by (simp add: py_floordiv_def)
  show ?case
  proof (cases "max_den < q0 + n div d * q1")
    case True
    with fd "1.prems"(1,2) d show ?thesis by (auto simp: ld_loop.simps [of max_den p0 q0 p1 q1])
  next
    case False
    have "ld_inv max_den den (p1, q1, p0 + n div d * p1, q0 + n div d * q1) (d, n - n div d * d)"
      using "1.prems"(1) d False by (intro ld_inv_step) simp_all
    moreover have "ld_cf num (p1, q1, p0 + n div d * p1, q0 + n div d * q1) (d, n - n div d * d)"
      using "1.prems"(2) by (rule ld_cf_step)
    ultimately show ?thesis
      using "1.IH" [OF fd refl False] "1.prems"(3) fd False
      by (simp add: Let_def ld_loop.simps [of max_den p0 q0 p1 q1])
  qed
qed

lemma ld_loop_first_step:
  assumes "1 \<le> max_den" "max_den < den" "coprime num den"
  shows "ld_loop max_den (0, 1, 1, 0) (num, den)
           = ld_loop max_den (1, 0, num div den, 1) (den, num - num div den * den)"
    and "ld_inv max_den den (1, 0, num div den, 1) (den, num - num div den * den)"
proof -
  have d: "den \<noteq> 0" using assms by simp
  then show "ld_loop max_den (0, 1, 1, 0) (num, den)
           = ld_loop max_den (1, 0, num div den, 1) (den, num - num div den * den)"
    using assms(1) by (simp add: py_floordiv_def ld_loop.simps [of max_den 0 1 1 0])
  have "gcd den (num mod den) = 1"
    using assms(3) by (simp add: gcd_red_int [symmetric] gcd.commute coprime_iff_gcd_eq_1)
  then show "ld_inv max_den den (1, 0, num div den, 1) (den, num - num div den * den)"
    using assms by (simp add: ld_inv_def minus_div_mult_eq_mod)
qed

lemma quotient_of_divide_den_le:
  assumes "0 < b"
  shows "snd (quotient_of (of_int a / of_int b)) \<le> b"
proof -
  have "quotient_of (of_int a / of_int b) = Rat.normalize (a, b)"
    by (simp add: Fract_of_int_quotient [symmetric] quotient_of_Fract)
  then have "snd (quotient_of (of_int a / of_int b)) = b div gcd a b"
    using assms by (simp add: Rat.normalize_def Let_def)
  also have "\<dots> \<le> b"
    using assms by (simp add: int_div_le_self)
  finally show ?thesis .
qed

lemma zdiv_mult_le: "0 < b \<Longrightarrow> a div b * b \<le> (a :: int)"
  using minus_mod_eq_div_mult [of a b] pos_mod_sign [of b a] by linarith

lemma limit_denominator_big:
  assumes N: "1 \<le> max_den" and qd: "quotient_of x = (num, den)" and big: "max_den < den"
  obtains p0 q0 p1 q1 n d k where
    "ld_inv max_den den (p0, q0, p1, q1) (n, d)" "ld_cf num (p0, q0, p1, q1) (n, d)"
    "d \<noteq> 0" "max_den < q0 + n div d * q1"
    "k = (max_den - q0) div q1" "0 \<le> k" "1 \<le> q0 + k * q1" "q0 + k * q1 \<le> max_den"
    "limit_denominator max_den x =
       Inr (if \<bar>of_int p1 / of_int q1 - x\<bar> \<le> \<bar>of_int (p0 + k * p1) / of_int (q0 + k * q1) - x\<bar>
            then of_int p1 / of_int q1 else of_int (p0 + k * p1) / of_int (q0 + k * q1))"
proof -
  have cop: "coprime num den" using qd by (simp add: quotient_of_coprime)
  note first = ld_loop_first_step [OF N big cop]
  have "ld_cf num (1, 0, num div den, 1) (den, num - num div den * den)"
    by (simp add: ld_cf_def algebra_simps)
  then obtain p0 q0 p1 q1 n d where lp: "ld_loop max_den (0, 1, 1, 0) (num, den) = Inr (p0, q0, p1, q1)"
    and inv: "ld_inv max_den den (p0, q0, p1, q1) (n, d)" and cf: "ld_cf num (p0, q0, p1, q1) (n, d)"
    and ex: "d \<noteq> 0" "max_den < q0 + n div d * q1"
    using ld_loop_exit [OF first(2) _ big] first(1) by metis
  have q: "0 \<le> q0" "q0 \<le> max_den" "1 \<le> q1" "q1 \<le> max_den" using inv by (simp_all add: ld_inv_def)
  define k where "k = (max_den - q0) div q1"
  have fd: "py_floordiv (max_den - q0) q1 = Inr k"
    using q by (simp add: py_floordiv_def k_def)
  have k0: "0 \<le> k" using q by (simp add: k_def pos_imp_zdiv_nonneg_iff)
  have "k * q1 = (max_den - q0) - (max_den - q0) mod q1"
    by (simp add: k_def minus_mod_eq_div_mult)
  moreover have "0 \<le> (max_den - q0) mod q1" using q by simp
  ultimately have "k * q1 \<le> max_den - q0" by linarith
  then have kle: "q0 + k * q1 \<le> max_den" by simp
  have kpos: "1 \<le> q0 + k * q1"
  proof (cases "q0 = 0")
    case True
    then have "1 \<le> k" using q pos_imp_zdiv_pos_iff [of q1 max_den] by (simp add: k_def)
    then have "1 * 1 \<le> k * q1" using q(3) by (intro mult_mono) simp_all
    with True show ?thesis by simp
  next
    case False
    have "0 \<le> k * q1" using k0 q(3) by simp
    then show ?thesis using False q(1) by linarith
  qed
  have "limit_denominator max_den x =
       Inr (if \<bar>of_int p1 / of_int q1 - x\<bar> \<le> \<bar>of_int (p0 + k * p1) / of_int (q0 + k * q1) - x\<bar>
            then of_int p1 / of_int q1 else of_int (p0 + k * p1) / of_int (q0 + k * q1))"
    using N big kpos q by (simp add: limit_denominator_def qd lp fd py_fraction_def)
  with inv cf ex k_def k0 kpos kle show ?thesis by (rule that)
qed

lemma limit_denominator_result:
  assumes N: "1 \<le> max_den"
  shows "\<exists>r. limit_denominator max_den x = Inr r \<and> snd (quotient_of r) \<le> max_den"
proof -
  obtain num den where qd: "quotient_of x = (num, den)" by (cases "quotient_of x")
  show ?thesis
  proof (cases "den \<le> max_den")
    case True
    then show ?thesis using N qd by (simp add: limit_denominator_def)
  next
    case False
    then obtain p0 q0 p1 q1 n d k where inv: "ld_inv max_den den (p0, q0, p1, q1) (n, d)"
      and k: "1 \<le> q0 + k * q1" "q0 + k * q1 \<le> max_den"
      and res: "limit_denominator max_den x =
       Inr (if \<bar>of_int p1 / of_int q1 - x\<bar> \<le> \<bar>of_int (p0 + k * p1) / of_int (q0 + k * q1) - x\<bar>
            then of_int p1 / of_int q1 else of_int (p0 + k * p1) / of_int (q0 + k * q1))"
      using limit_denominator_big [OF N qd] by (metis not_le)
    have q: "1 \<le> q1" "q1 \<le> max_den" using inv by (simp_all add: ld_inv_def)
    define b1 where "b1 = (of_int (p0 + k * p1) / of_int (q0 + k * q1) :: rat)"
    define b2 where "b2 = (of_int p1 / of_int q1 :: rat)"
    have "limit_denominator max_den x = Inr (if \<bar>b2 - x\<bar> \<le> \<bar>b1 - x\<bar> then b2 else b1)"
      using res by (simp only: b1_def b2_def)
    moreover have "snd (quotient_of b1) \<le> max_den"
      using quotient_of_divide_den_le [of "q0 + k * q1" "p0 + k * p1"] k by (simp add: b1_def)
    moreover have "snd (quotient_of b2) \<le> max_den"
      using quotient_of_divide_den_le [of q1 p1] q by (simp add: b2_def)
    ultimately show ?thesis by auto
  qed
qed

lemma limit_denominator_small:
  "1 \<le> max_den \<Longrightarrow> snd (quotient_of x) \<le> max_den \<Longrightarrow> limit_denominator max_den x = Inr x"
  by (cases "quotient_of x") (simp add: limit_denominator_def)

lemma limit_denominator_tiny:
  assumes M: "1 \<le> max_den" and x: "0 < x" "x \<le> 1 / (2 * of_int max_den)"
  shows "limit_denominator max_den x = Inr 0"
proof -
  obtain n d where qd: "quotient_of x = (n, d)" by (cases "quotient_of x")
  have d: "0 < d" and cop: "coprime n d" and xnd: "x = of_int n / of_int d"
    using qd by (simp_all add: quotient_of_denom_pos quotient_of_coprime quotient_of_div)
  have n: "0 < n" using x(1) d xnd by (simp add: zero_less_divide_iff)
  have "of_int n * (2 * of_int max_den) \<le> (of_int d :: rat)"
    using x(2) d M xnd by (simp add: field_simps)
  then have nd: "n * (2 * max_den) \<le> d" by (metis of_int_le_iff of_int_mult of_int_numeral)
  have nd2: "2 * (n * max_den) \<le> d" using nd by (simp add: algebra_simps)
  have "n \<le> n * max_den" "max_den \<le> n * max_den" using n M by simp_all
  then have big: "max_den < d" and nlt: "n < d" using nd2 n M by linarith+
  have a0: "n div d = 0" using n nlt by simp
  have a1: "max_den < d div n"
  proof -
    have "(n * (2 * max_den)) div n \<le> d div n" using nd n by (rule zdiv_mono1)
    then have "2 * max_den \<le> d div n" using n by simp
    then show ?thesis using M by simp
  qed
  have loop: "ld_loop max_den (0, 1, 1, 0) (n, d) = Inr (1, 0, 0, 1)"
  proof -
    have "ld_loop max_den (0, 1, 1, 0) (n, d) = ld_loop max_den (1, 0, 0, 1) (d, n)"
      using d M a0 by (simp add: ld_loop.simps [of max_den 0 1 1 0] py_floordiv_def)
    also have "\<dots> = Inr (1, 0, 0, 1)"
      using n a1 by (simp add: ld_loop.simps [of max_den 1 0 0 1] py_floordiv_def)
    finally show ?thesis .
  qed
  have closer: "\<bar>0 - x\<bar> \<le> \<bar>of_int (1 + max_den * 0) / of_int (0 + max_den * 1) - x\<bar>"
  proof -
    have "2 * x \<le> 1 / of_int max_den" using x(2) M by (simp add: field_simps)
    then show ?thesis using x(1) by simp
  qed
  show ?thesis
    using M big qd loop closer by (simp add: limit_denominator_def py_floordiv_def py_fraction_def)
qed


text \<open>
  C4. \<^verbatim>\<open>limit_denominator\<close> with a bound of at least 1 always returns: it never raises,
  and the loop ends. Its result has a denominator within the bound, and a value whose
  denominator is already within the bound is returned unchanged.
\<close>

theorem limit_denominator_total:
  assumes "1 \<le> max_den"
  shows "\<exists>r. limit_denominator max_den x = Inr r \<and> snd (quotient_of r) \<le> max_den \<and>
             (snd (quotient_of x) \<le> max_den \<longrightarrow> r = x)"
proof (cases "snd (quotient_of x) \<le> max_den")
  case True
  then show ?thesis using assms limit_denominator_small by simp
next
  case False
  then show ?thesis using limit_denominator_result [OF assms] by simp
qed

theorem limit_denominator_total_witness:
  "\<exists>r. limit_denominator 1000 (31415926 / 10000000) = Inr r \<and> snd (quotient_of r) \<le> 1000 \<and>
       (snd (quotient_of (31415926 / 10000000 :: rat)) \<le> 1000 \<longrightarrow> r = 31415926 / 10000000)"
  by (rule limit_denominator_total) simp

section \<open>Lemmas: \<open>limit_denominator\<close> returns a best approximation\<close>

text \<open>
  Two fractions \<open>a/b\<close> and \<open>c/d\<close> with determinant \<open>\<plusminus>1\<close> (Farey neighbours) have no
  fraction strictly between them with a denominator below \<open>b + d\<close>, and every
  \<open>(a u + c v) / (b u + d v)\<close> with \<open>u \<ge> 0 < v\<close> lies between them. At the exit of
  \<open>ld_loop\<close> the two bounds of \<open>limit_denominator\<close> are such neighbours, the input lies
  between them, and the sum of their denominators exceeds the bound.
\<close>

lemma farey_gap:
  fixes a b c d p q :: int
  assumes det: "c * b - a * d = 1" and pos: "0 < b" "0 < d"
    and lo: "a * q < p * b" and hi: "p * d < c * q"
  shows "b + d \<le> q"
proof -
  have l: "1 \<le> p * b - a * q" and h: "1 \<le> c * q - p * d" using lo hi by linarith+
  have "b * 1 \<le> b * (c * q - p * d)" using h pos(1) by (intro mult_left_mono) simp_all
  moreover have "d * 1 \<le> d * (p * b - a * q)" using l pos(2) by (intro mult_left_mono) simp_all
  moreover have "b * (c * q - p * d) + d * (p * b - a * q) = q * (c * b - a * d)"
    by (simp add: algebra_simps)
  ultimately show ?thesis using det by simp
qed

lemma mediant_between:
  fixes a b c d u v :: int
  assumes "0 \<le> u" "0 < v" "0 < b" "0 < d"
  defines "x \<equiv> (of_int (a * u + c * v) / of_int (b * u + d * v) :: rat)"
  shows "min (of_int a / of_int b) (of_int c / of_int d) \<le> x \<and>
         x \<le> max (of_int a / of_int b) (of_int c / of_int d)"
proof -
  define A where "A = (of_int a / of_int b :: rat)"
  define C where "C = (of_int c / of_int d :: rat)"
  define U where "U = (of_int (b * u) :: rat)"
  define V where "V = (of_int (d * v) :: rat)"
  have U: "0 \<le> U" and V: "0 < V" using assms(1-4) by (simp_all add: U_def V_def)
  have num: "of_int (a * u + c * v) = A * U + C * V"
    using assms(3,4) by (simp add: A_def C_def U_def V_def field_simps)
  have den: "of_int (b * u + d * v) = U + V" by (simp add: U_def V_def)
  have w: "0 < U + V" using U V by simp
  have "min A C * U \<le> A * U" "min A C * V \<le> C * V"
    using U V by (intro mult_right_mono; simp)+
  then have "min A C * (U + V) \<le> A * U + C * V" by (simp add: distrib_left)
  moreover have "A * U \<le> max A C * U" "C * V \<le> max A C * V"
    using U V by (intro mult_right_mono; simp)+
  then have "A * U + C * V \<le> max A C * (U + V)" by (simp add: distrib_left)
  moreover have "x = (A * U + C * V) / (U + V)" unfolding x_def by (simp only: num den)
  ultimately show ?thesis
    using w by (simp add: pos_le_divide_eq pos_divide_le_eq A_def [symmetric] C_def [symmetric] del: of_int_mult of_int_add)
qed

lemma frac_less_iff:
  "0 < b \<Longrightarrow> 0 < q \<Longrightarrow> (of_int a / of_int b < (of_int p / of_int q :: rat)) \<longleftrightarrow> a * q < p * b"
  by (simp add: divide_less_eq less_divide_eq mult.commute flip: of_int_mult)

lemma between_neighbours_den:
  fixes a b c d :: int
  assumes det: "\<bar>a * d - c * b\<bar> = 1" and pos: "0 < b" "0 < d"
    and lo: "min (of_int a / of_int b) (of_int c / of_int d) < y"
    and hi: "y < max (of_int a / of_int b) (of_int c / of_int d)"
  shows "b + d \<le> snd (quotient_of y)"
proof -
  obtain p q where qy: "quotient_of y = (p, q)" by (cases "quotient_of y")
  have q: "0 < q" and y: "y = of_int p / of_int q"
    using qy by (simp_all add: quotient_of_denom_pos quotient_of_div)
  show ?thesis
  proof (cases "of_int a / of_int b \<le> (of_int c / of_int d :: rat)")
    case True
    then have "a * d \<le> c * b" using pos by (simp add: divide_le_eq le_divide_eq mult.commute flip: of_int_mult)
    moreover have "a * d \<noteq> c * b"
    proof
      assume "a * d = c * b" then show False using det by simp
    qed
    ultimately have "c * b - a * d = 1" using det by linarith
    moreover have "a * q < p * b" "p * d < c * q"
      using lo hi True pos q by (simp_all add: y frac_less_iff)
    ultimately show ?thesis using pos qy by (simp add: farey_gap)
  next
    case False
    then have "c * b < a * d" using pos by (simp add: divide_le_eq le_divide_eq mult.commute flip: of_int_mult)
    have "a * d - c * b = 1" using det \<open>c * b < a * d\<close> by linarith
    moreover have "c * q < p * d" "p * b < a * q"
      using lo hi False pos q by (simp_all add: y frac_less_iff)
    ultimately have "d + b \<le> q" using pos farey_gap [where a=c and b=d and c=a and d=b and p=p and q=q] by simp
    then show ?thesis using qy by simp
  qed
qed

lemma neighbours_closest:
  fixes a b c d :: int
  assumes det: "\<bar>a * d - c * b\<bar> = 1" and pos: "0 < b" "0 < d"
    and lo: "min (of_int a / of_int b) (of_int c / of_int d) \<le> x"
    and hi: "x \<le> max (of_int a / of_int b) (of_int c / of_int d)"
    and y: "snd (quotient_of y) < b + d"
  shows "min \<bar>of_int a / of_int b - x\<bar> \<bar>of_int c / of_int d - x\<bar> \<le> \<bar>y - x\<bar>"
proof (rule ccontr)
  define A where "A = (of_int a / of_int b :: rat)"
  define C where "C = (of_int c / of_int d :: rat)"
  assume "\<not> ?thesis"
  then have cl: "\<bar>y - x\<bar> < \<bar>A - x\<bar>" "\<bar>y - x\<bar> < \<bar>C - x\<bar>" by (simp_all add: A_def C_def)
  have "min A C < y" "y < max A C"
    using cl lo hi unfolding A_def [symmetric] C_def [symmetric] by (cases "A \<le> C"; linarith)+
  then have "b + d \<le> snd (quotient_of y)"
    using det pos by (intro between_neighbours_den) (simp_all add: A_def C_def)
  then show False using y by simp
qed

lemma ld_exit_neighbours:
  assumes inv: "ld_inv max_den den (p0, q0, p1, q1) (n, d)" and cf: "ld_cf num (p0, q0, p1, q1) (n, d)"
    and ex: "d \<noteq> 0" "max_den < q0 + n div d * q1"
    and k: "k = (max_den - q0) div q1" "1 \<le> q0 + k * q1"
  shows "\<bar>p1 * (q0 + k * q1) - (p0 + k * p1) * q1\<bar> = 1" and "0 < q1"
    and "max_den < q1 + (q0 + k * q1)"
    and "min (of_int p1 / of_int q1) (of_int (p0 + k * p1) / of_int (q0 + k * q1))
           \<le> (of_int num / of_int den :: rat)"
    and "(of_int num / of_int den :: rat)
           \<le> max (of_int p1 / of_int q1) (of_int (p0 + k * p1) / of_int (q0 + k * q1))"
proof -
  define P where "P = p0 + k * p1"
  define Q where "Q = q0 + k * q1"
  have q1: "0 < q1" and dpos: "0 < d" and den: "den = q1 * n + q0 * d"
    using inv ex(1) by (simp_all add: ld_inv_def)
  have num: "num = p1 * n + p0 * d" and det0: "\<bar>p1 * q0 - p0 * q1\<bar> = 1"
    using cf by (simp_all add: ld_cf_def)
  have "p1 * Q - P * q1 = p1 * q0 - p0 * q1" by (simp add: P_def Q_def algebra_simps)
  then show "\<bar>p1 * (q0 + k * q1) - (p0 + k * p1) * q1\<bar> = 1" using det0 by (simp add: P_def Q_def)
  show "0 < q1" by (rule q1)
  have "max_den - q0 = k * q1 + (max_den - q0) mod q1" by (simp add: k(1))
  moreover have "(max_den - q0) mod q1 < q1" using q1 by simp
  ultimately show "max_den < q1 + (q0 + k * q1)" by (simp add: algebra_simps)
  have u: "0 \<le> n - k * d"
  proof -
    have "k * q1 \<le> max_den - q0" using k(1) q1 by (simp add: zdiv_mult_le)
    then have "k * q1 < n div d * q1" using ex(2) by simp
    then have "k \<le> n div d" using q1 by simp
    then have "k * d \<le> n div d * d" using dpos by simp
    moreover have "n div d * d \<le> n" using dpos by (rule zdiv_mult_le)
    ultimately show ?thesis by simp
  qed
  have "(of_int num / of_int den :: rat) = of_int (p1 * (n - k * d) + P * d) / of_int (q1 * (n - k * d) + Q * d)"
    by (simp add: num den P_def Q_def algebra_simps)
  moreover have "0 < Q" using k(2) by (simp add: Q_def)
  ultimately have "min (of_int p1 / of_int q1) (of_int P / of_int Q) \<le> (of_int num / of_int den :: rat) \<and>
             (of_int num / of_int den :: rat) \<le> max (of_int p1 / of_int q1) (of_int P / of_int Q)"
    using mediant_between [OF u dpos q1, of Q p1 P] by simp
  then show "min (of_int p1 / of_int q1) (of_int (p0 + k * p1) / of_int (q0 + k * q1))
           \<le> (of_int num / of_int den :: rat)"
    and "(of_int num / of_int den :: rat)
           \<le> max (of_int p1 / of_int q1) (of_int (p0 + k * p1) / of_int (q0 + k * q1))"
    by (simp_all only: P_def Q_def)
qed

text \<open>
  C31. \<^verbatim>\<open>limit_denominator(max_denominator)\<close> returns a closest fraction to the input
  among all fractions whose denominator is at most \<^verbatim>\<open>max_denominator\<close>, as its
  docstring promises.
\<close>

theorem limit_denominator_best:
  assumes N: "1 \<le> max_den" and r: "limit_denominator max_den x = Inr r"
    and y: "snd (quotient_of y) \<le> max_den"
  shows "\<bar>r - x\<bar> \<le> \<bar>y - x\<bar>"
proof -
  obtain num den where qd: "quotient_of x = (num, den)" by (cases "quotient_of x")
  show ?thesis
  proof (cases "den \<le> max_den")
    case True
    then have "r = x" using N qd r by (simp add: limit_denominator_def)
    then show ?thesis by simp
  next
    case False
    then obtain p0 q0 p1 q1 n d k where inv: "ld_inv max_den den (p0, q0, p1, q1) (n, d)"
      and cf: "ld_cf num (p0, q0, p1, q1) (n, d)" and ex: "d \<noteq> 0" "max_den < q0 + n div d * q1"
      and k: "k = (max_den - q0) div q1" "1 \<le> q0 + k * q1"
      and res: "limit_denominator max_den x =
       Inr (if \<bar>of_int p1 / of_int q1 - x\<bar> \<le> \<bar>of_int (p0 + k * p1) / of_int (q0 + k * q1) - x\<bar>
            then of_int p1 / of_int q1 else of_int (p0 + k * p1) / of_int (q0 + k * q1))"
      using limit_denominator_big [OF N qd] by (metis not_le)
    note nb = ld_exit_neighbours [OF inv cf ex k]
    have x: "x = of_int num / of_int den" using qd by (simp add: quotient_of_div)
    define b1 where "b1 = (of_int (p0 + k * p1) / of_int (q0 + k * q1) :: rat)"
    define b2 where "b2 = (of_int p1 / of_int q1 :: rat)"
    have cl: "min \<bar>b2 - x\<bar> \<bar>b1 - x\<bar> \<le> \<bar>y - x\<bar>"
      unfolding b1_def b2_def x using nb k(2) y by (intro neighbours_closest) simp_all
    have "r = (if \<bar>b2 - x\<bar> \<le> \<bar>b1 - x\<bar> then b2 else b1)"
      using r res unfolding b1_def b2_def by simp
    then show ?thesis using cl by (cases "\<bar>b2 - x\<bar> \<le> \<bar>b1 - x\<bar>") simp_all
  qed
qed

theorem limit_denominator_best_witness:
  "1 \<le> (1000 :: int) \<and> limit_denominator 1000 (31415926 / 10000000) = Inr (355 / 113) \<and>
   snd (quotient_of (22 / 7 :: rat)) \<le> 1000 \<and>
   \<bar>355 / 113 - 31415926 / 10000000\<bar> \<le> \<bar>22 / 7 - (31415926 / 10000000 :: rat)\<bar>"
proof -
  have ld: "limit_denominator 1000 (31415926 / 10000000) = Inr (355 / 113)" by code_simp
  have y: "snd (quotient_of (22 / 7 :: rat)) \<le> 1000" by code_simp
  show ?thesis using limit_denominator_best [OF _ ld y] ld y by simp
qed

section \<open>Lemmas: \<^verbatim>\<open>Fraction(s)\<close> on strings of digits\<close>

lemma ud_tail_digits: "\<forall>c \<in> set ds. is_digit c \<Longrightarrow> ud_tail ds"
  by (induction ds) auto

lemma all_digits_ud_run: "all_digits ds \<Longrightarrow> ud_run ds"
  by (cases ds) (auto simp: all_digits_def ud_run_def ud_tail_digits)

lemma digit_ud_char: "is_digit c \<Longrightarrow> is_ud_char c"
  by (simp add: is_ud_char_def)

lemma is_digit_not_sign [simp]:
  "is_digit c \<Longrightarrow> c \<noteq> CHR ''-''" "is_digit c \<Longrightarrow> c \<noteq> CHR ''+''"
  "is_digit c \<Longrightarrow> c \<noteq> CHR ''/''" "is_digit c \<Longrightarrow> c \<noteq> CHR ''.''"
  by (auto simp: is_digit_def)

lemma all_digits_strip: "all_digits ds \<Longrightarrow> py_strip ds = ds"
  by (rule py_strip_id) (auto simp: all_digits_def)

lemma all_digits_takeWhile_ud: "all_digits ds \<Longrightarrow> takeWhile is_ud_char (ds @ r) = ds @ takeWhile is_ud_char r"
  by (simp add: all_digits_def digit_ud_char)

lemma all_digits_dropWhile_ud: "all_digits ds \<Longrightarrow> dropWhile is_ud_char (ds @ r) = dropWhile is_ud_char r"
  by (simp add: all_digits_def digit_ud_char)

lemma py_int_of_all_digits:
  "all_digits ds \<Longrightarrow> py_int_of_digits ds =
     (if max_str_digits < length ds then Inl ValueError else Inr (int_of_digits ds))"
  by (simp add: py_int_of_digits_def all_digits_def)

lemma match_rational_digits:
  assumes "all_digits ds"
  shows "match_rational ds = Some \<lparr>rm_sign = [], rm_num = ds, rm_denom = None, rm_decimal = None, rm_exp = None\<rparr>"
proof -
  obtain c cs where ds: "ds = c # cs" and c: "is_digit c"
    using assms by (cases ds) (auto simp: all_digits_def)
  show ?thesis
    using assms all_digits_takeWhile_ud [OF assms, of "[]"] all_digits_dropWhile_ud [OF assms, of "[]"]
    by (simp add: match_rational_def all_digits_strip all_digits_ud_run ds c Let_def)
qed

lemma fraction_of_str_digits:
  assumes "all_digits ds"
  shows "fraction_of_str ds =
           (if max_str_digits < length ds then Inl ValueError else Inr (of_int (int_of_digits ds)))"
  using assms all_digits_ne [OF assms]
  by (simp add: fraction_of_str_def match_rational_digits py_int_of_all_digits)

lemma match_rational_ratio:
  assumes "all_digits ds" "all_digits es"
  shows "match_rational (ds @ CHR ''/'' # es) =
           Some \<lparr>rm_sign = [], rm_num = ds, rm_denom = Some es, rm_decimal = None, rm_exp = None\<rparr>"
proof -
  obtain c cs where ds: "ds = c # cs" and c: "is_digit c"
    using assms by (cases ds) (auto simp: all_digits_def)
  have strip: "py_strip (ds @ CHR ''/'' # es) = ds @ CHR ''/'' # es"
    using all_digits_hd_last [OF assms(1)] all_digits_hd_last [OF assms(2)]
      all_digits_ne [OF assms(1)] all_digits_ne [OF assms(2)]
    by (intro py_strip_id) simp
  have "takeWhile is_ud_char (ds @ CHR ''/'' # es) = ds"
    using all_digits_takeWhile_ud [OF assms(1)] by (simp add: is_ud_char_def is_digit_def)
  moreover have "dropWhile is_ud_char (ds @ CHR ''/'' # es) = CHR ''/'' # es"
    using all_digits_dropWhile_ud [OF assms(1)] by (simp add: is_ud_char_def is_digit_def)
  ultimately show ?thesis
    using assms strip by (simp add: match_rational_def all_digits_ud_run ds c Let_def)
qed

section \<open>The tokens of a quantity\<close>

lemma match_rational_decimal:
  assumes "all_digits ds" "all_digits es"
  shows "match_rational (ds @ CHR ''.'' # es) =
           Some \<lparr>rm_sign = [], rm_num = ds, rm_denom = None, rm_decimal = Some es, rm_exp = None\<rparr>"
proof -
  obtain c cs where ds: "ds = c # cs" and c: "is_digit c"
    using assms by (cases ds) (auto simp: all_digits_def)
  have strip: "py_strip (ds @ CHR ''.'' # es) = ds @ CHR ''.'' # es"
    using all_digits_hd_last [OF assms(1)] all_digits_hd_last [OF assms(2)]
      all_digits_ne [OF assms(1)] all_digits_ne [OF assms(2)]
    by (intro py_strip_id) simp
  have t1: "takeWhile is_ud_char (ds @ CHR ''.'' # es) = ds"
    using all_digits_takeWhile_ud [OF assms(1)] by (simp add: is_ud_char_def is_digit_def)
  have d1: "dropWhile is_ud_char (ds @ CHR ''.'' # es) = CHR ''.'' # es"
    using all_digits_dropWhile_ud [OF assms(1)] by (simp add: is_ud_char_def is_digit_def)
  have t2: "takeWhile is_ud_char es = es" and d2: "dropWhile is_ud_char es = []"
    using all_digits_takeWhile_ud [OF assms(2), of "[]"] all_digits_dropWhile_ud [OF assms(2), of "[]"]
    by simp_all
  have "ud_run ds" "ud_run es" using assms by (simp_all add: all_digits_ud_run)
  then show ?thesis
    using all_digits_ne [OF assms(2)]
    using strip [unfolded ds append_Cons] t1 [unfolded ds append_Cons] d1 [unfolded ds append_Cons]
    by (simp add: match_rational_def Let_def t2 d2 ds c match_exp_def)
qed

text \<open>
  C22. A token \<^verbatim>\<open>a/b\<close> of two runs of digits is the exact fraction \<open>a/b\<close>, and
  \<^verbatim>\<open>Fraction\<close> raises \<open>ZeroDivisionError\<close> when \<open>b\<close> is zero.
\<close>

theorem fraction_of_str_ratio:
  assumes "all_digits ds" "all_digits es"
    "length ds \<le> max_str_digits" "length es \<le> max_str_digits"
  shows "fraction_of_str (ds @ CHR ''/'' # es) =
           (if int_of_digits es = 0 then Inl ZeroDivisionError
            else Inr (of_int (int_of_digits ds) / of_int (int_of_digits es)))"
  using assms all_digits_ne [OF assms(1)]
  by (simp add: fraction_of_str_def match_rational_ratio py_int_of_all_digits)

theorem fraction_of_str_ratio_witness:
  "fraction_of_str ''3/4'' = Inr (3 / 4) \<and> fraction_of_str ''1/0'' = Inl ZeroDivisionError"
proof -
  have "fraction_of_str (''3'' @ CHR ''/'' # ''4'') = Inr (of_int (int_of_digits ''3'') / of_int (int_of_digits ''4''))"
    using fraction_of_str_ratio [of "''3''" "''4''"]
    by (simp add: all_digits_def is_digit_def max_str_digits_def digit_value_def)
  moreover have "fraction_of_str (''1'' @ CHR ''/'' # ''0'') = Inl ZeroDivisionError"
    using fraction_of_str_ratio [of "''1''" "''0''"]
    by (simp add: all_digits_def is_digit_def max_str_digits_def digit_value_def)
  ultimately show ?thesis by (simp add: digit_value_def)
qed

text \<open>
  C23. A decimal token \<^verbatim>\<open>a.b\<close> of two runs of digits is the exact value
  \<open>a + b / 10\<^sup>k\<close>, \<open>k\<close> the number of digits of \<open>b\<close>: no binary rounding happens
  while parsing.
\<close>

theorem fraction_of_str_decimal:
  assumes "all_digits ds" "all_digits es"
    "length ds \<le> max_str_digits" "length es \<le> max_str_digits"
  shows "fraction_of_str (ds @ CHR ''.'' # es) =
           Inr (of_int (int_of_digits ds) + of_int (int_of_digits es) / 10 ^ length es)"
proof -
  have f: "filter is_digit es = es" using assms(2) by (simp add: all_digits_def)
  have "(10 :: rat) ^ length es \<noteq> 0" by simp
  then show ?thesis
    using assms all_digits_ne [OF assms(1)] all_digits_ne [OF assms(2)]
    by (simp add: fraction_of_str_def match_rational_decimal py_int_of_all_digits f field_simps)
qed

theorem fraction_of_str_decimal_witness: "fraction_of_str ''0.25'' = Inr (1 / 4)"
proof -
  have "fraction_of_str (''0'' @ CHR ''.'' # ''25'') =
          Inr (of_int (int_of_digits ''0'') + of_int (int_of_digits ''25'') / 10 ^ length ''25'')"
    using fraction_of_str_decimal [of "''0''" "''25''"]
    by (simp add: all_digits_def is_digit_def max_str_digits_def)
  then show ?thesis by (simp add: int_of_digits_def digit_value_def)
qed

end
