(* ===== verification/Quantity.thy ===== *)
theory Quantity
  imports PyFloat PyFraction
begin

text \<open>
  The quantity parser of \<^verbatim>\<open>src/webscraper_project/main.py\<close>:
  \<^verbatim>\<open>extract_quantity\<close> (lines 35--44) reads the leading run of digits, slashes,
  dots and whitespace of an ingredient line as a sum of fractions and returns it as a
  float, or \<^verbatim>\<open>None\<close>; \<^verbatim>\<open>remove_quantity\<close> (lines 46--47) deletes that run.
  The two share the character class \<^verbatim>\<open>[0-9/.\s]\<close> and are independent of each
  other: the caller runs both on the same line.
\<close>

section \<open>The regular expression \<^verbatim>\<open>[0-9/.\s]+\<close> at the start of the line\<close>

definition is_qty_char :: "char \<Rightarrow> bool" where
  "is_qty_char c \<longleftrightarrow> is_digit c \<or> c = CHR ''/'' \<or> c = CHR ''.'' \<or> is_py_space c"

text \<open>
  \<^verbatim>\<open>re.match(r"([0-9/.\s]+)", text).group(1)\<close>: the longest prefix of quantity
  characters (the match exists exactly when it is non-empty).
\<close>

definition qty_prefix :: "string \<Rightarrow> string" where
  "qty_prefix text = takeWhile is_qty_char text"

section \<open>\<^verbatim>\<open>extract_quantity\<close>\<close>

text \<open>
  \<^verbatim>\<open>sum(Fraction(s) for s in tokens)\<close>: a left fold from the int \<open>0\<close> that stops at
  the first token \<^verbatim>\<open>Fraction\<close> rejects.
\<close>

fun sum_fractions :: "rat \<Rightarrow> string list \<Rightarrow> rat py" where
  "sum_fractions acc [] = Inr acc"
| "sum_fractions acc (s # ss) = py_bind (fraction_of_str s) (\<lambda>q. sum_fractions (acc + q) ss)"

text \<open>
  Lines 36--44. An empty token list leaves \<^verbatim>\<open>sum\<close> at the int \<open>0\<close>, which \<^verbatim>\<open>float\<close>
  converts directly; otherwise the sum is a \<open>Fraction\<close>, converted by
  \<^verbatim>\<open>Fraction.__float__\<close>. Every exception is caught by the bare \<^verbatim>\<open>except\<close>.
\<close>

definition extract_quantity :: "string \<Rightarrow> f64 option" where
  "extract_quantity text =
     (let m = qty_prefix text
      in if m = [] then None
         else let qty_str = py_strip m; tokens = py_split qty_str
              in case (if tokens = [] then py_float_of_int 0
                       else py_bind (sum_fractions 0 tokens) py_float_of_fraction) of
                   Inl _ \<Rightarrow> None
                 | Inr qty \<Rightarrow> Some qty)"

section \<open>\<^verbatim>\<open>remove_quantity\<close>\<close>

text \<open>Line 47: \<^verbatim>\<open>re.sub(r"^[0-9/.\s]+", "", text).strip()\<close>.\<close>

definition remove_quantity :: "string \<Rightarrow> string" where
  "remove_quantity text = py_strip (dropWhile is_qty_char text)"

section \<open>Lemmas: the quantity prefix of digits and spaces\<close>

lemma qty_char_dropWhile:
  "dropWhile is_qty_char t = [] \<or> \<not> is_qty_char (hd (dropWhile is_qty_char t))"
  by (cases "dropWhile is_qty_char t = []") (simp_all add: hd_dropWhile)

lemma space_is_qty_char: "is_py_space c \<Longrightarrow> is_qty_char c"
  by (simp add: is_qty_char_def)

lemma digit_qty_char: "is_digit c \<Longrightarrow> is_qty_char c"
  by (simp add: is_qty_char_def)

lemma space_qty_char: "is_qty_char (CHR '' '')"
  by (simp add: is_qty_char_def is_py_space_def)

lemma join_digits_ne: "ns \<noteq> [] \<Longrightarrow> join_with '' '' (map digits_of_int ns) \<noteq> []"
  by (induction "'' ''" "map digits_of_int ns" arbitrary: ns rule: join_with.induct) auto

lemma join_digits_qty:
  "\<forall>n \<in> set ns. 0 \<le> n \<Longrightarrow> c \<in> set (join_with '' '' (map digits_of_int ns)) \<Longrightarrow> is_qty_char c"
proof (induction ns rule: induct_list012)
  case (3 x y zs)
  then show ?case by (auto simp: space_qty_char digit_qty_char digits_of_int_digits)
qed (auto simp: digit_qty_char digits_of_int_digits)


lemma join_digits_ends:
  assumes "ns \<noteq> []" "\<forall>n \<in> set ns. 0 \<le> n"
  shows "is_digit (hd (join_with '' '' (map digits_of_int ns))) \<and>
         is_digit (last (join_with '' '' (map digits_of_int ns)))"
  using assms
proof (induction ns rule: induct_list012)
  case (2 x)
  then show ?case using all_digits_hd_last digits_of_int_all_digits by simp
next
  case (3 x y zs)
  have "is_digit (hd (digits_of_int x))"
    using 3 all_digits_hd_last digits_of_int_all_digits by simp
  moreover have "is_digit (last (join_with '' '' (map digits_of_int (y # zs))))"
    using 3 by simp
  moreover have "join_with '' '' (map digits_of_int (y # zs)) \<noteq> []"
    by (rule join_digits_ne) simp
  ultimately show ?case by simp
qed simp

lemma py_split_join_digits:
  "\<forall>n \<in> set ns. 0 \<le> n \<Longrightarrow> py_split (join_with '' '' (map digits_of_int ns)) = map digits_of_int ns"
proof (induction ns rule: induct_list012)
  case (2 x)
  then have "py_split (digits_of_int x @ []) = digits_of_int x # py_split []"
    by (intro py_split_token) (auto dest: digits_of_int_digits)
  then show ?case by simp
next
  case (3 x y zs)
  let ?j = "join_with '' '' (map digits_of_int (y # zs))"
  have "py_split (digits_of_int x @ '' '' @ ?j) = digits_of_int x # py_split ('' '' @ ?j)"
    using "3.prems" by (intro py_split_token) (auto dest: digits_of_int_digits)
  moreover have "py_split ('' '' @ ?j) = py_split ?j"
    by (rule py_split_spaces) simp
  ultimately show ?case using 3 by simp
qed simp

lemma sum_fractions_digits:
  assumes "\<forall>n \<in> set ns. 0 \<le> n \<and> length (digits_of_int n) \<le> max_str_digits"
  shows "sum_fractions acc (map digits_of_int ns) = Inr (acc + of_int (sum_list ns))"
  using assms
proof (induction ns arbitrary: acc)
  case (Cons n ns)
  have "fraction_of_str (digits_of_int n) = Inr (of_int n)"
    using Cons.prems by (simp add: fraction_of_str_digits digits_of_int_all_digits)
  then show ?case using Cons by (simp add: algebra_simps)
qed simp

lemma qty_prefix_split:
  assumes "\<forall>c \<in> set q. is_qty_char c" "desc = [] \<or> \<not> is_qty_char (hd desc)"
  shows "qty_prefix (q @ desc) = q" "dropWhile is_qty_char (q @ desc) = desc"
  using assms by (cases desc; simp add: qty_prefix_def)+

lemma extract_quantity_Fin: "extract_quantity t = Some v \<Longrightarrow> \<exists>r. v = Fin r"
  by (auto simp: extract_quantity_def Let_def py_float_of_int_def py_bind_def
           split: if_splits sum.splits dest: py_float_of_rat_Fin py_float_of_fraction_Fin)

lemma extract_quantity_float:
  "extract_quantity t = Some v \<Longrightarrow> \<exists>r. v = Fin r \<and> round_binary64 r = r \<and> \<not> f64_overflows r"
  using extract_quantity_Fin [of t v]
  by (auto simp: extract_quantity_def Let_def py_float_of_int_def py_bind_def
           split: if_splits sum.splits dest: py_float_of_rat_float py_float_of_fraction_float)

lemma extract_quantity_token:
  assumes "tok \<noteq> []" "\<forall>c \<in> set tok. is_qty_char c \<and> \<not> is_py_space c"
    and "desc = [] \<or> \<not> is_qty_char (hd desc)"
  shows "extract_quantity (tok @ CHR '' '' # desc) =
           (case py_bind (fraction_of_str tok) py_float_of_fraction of Inl _ \<Rightarrow> None | Inr v \<Rightarrow> Some v)"
proof -
  have q: "\<forall>c \<in> set (tok @ '' ''). is_qty_char c" using assms(2) space_qty_char by auto
  have pre: "qty_prefix (tok @ '' '' @ desc) = tok @ '' ''"
    using qty_prefix_split [OF q assms(3)] by simp
  have strip: "py_strip (tok @ '' '') = tok"
  proof -
    have "py_strip (tok @ '' '') = py_strip tok" by (rule py_strip_spaces_right) simp
    also have "\<dots> = tok" using assms(1,2) by (intro py_strip_id) simp
    finally show ?thesis .
  qed
  have split: "py_split tok = [tok]"
    using py_split_token [of tok "[]"] assms(1,2) by simp
  show ?thesis
    using pre strip split assms(1)
    by (cases "fraction_of_str tok") (simp_all add: extract_quantity_def Let_def split: sum.split)
qed

section \<open>The split of an ingredient line\<close>

text \<open>
  C3. The description \<^verbatim>\<open>remove_quantity\<close> returns never starts with a character of
  the quantity class and never ends in whitespace, and the line is the quantity prefix,
  then the description, then whitespace only.
\<close>

theorem remove_quantity_clean:
  "let d = remove_quantity text
   in (d = [] \<or> \<not> is_qty_char (hd d) \<and> \<not> is_py_space (last d)) \<and>
      (\<exists>sp. text = qty_prefix text @ d @ sp \<and> (\<forall>c \<in> set sp. is_py_space c))"
proof -
  define r where "r = dropWhile is_qty_char text"
  have r: "r = [] \<or> \<not> is_qty_char (hd r)"
    unfolding r_def by (rule qty_char_dropWhile)
  then have l: "py_lstrip r = r"
    by (auto intro: py_lstrip_id dest: space_is_qty_char)
  have d: "remove_quantity text = py_rstrip r"
    by (simp add: remove_quantity_def py_strip_def r_def [symmetric] l)
  have ends: "py_rstrip r = [] \<or> \<not> is_py_space (hd (py_rstrip r)) \<and> \<not> is_py_space (last (py_rstrip r))"
    using py_strip_ends [of r] by (simp add: py_strip_def l)
  have app: "r = py_rstrip r @ rev (takeWhile is_py_space (rev r))"
    by (simp add: py_rstrip_append)
  have hd: "py_rstrip r \<noteq> [] \<Longrightarrow> hd (py_rstrip r) = hd r"
    using app by (metis hd_append2)
  have "py_rstrip r = [] \<or> \<not> is_qty_char (hd (py_rstrip r))"
    using r hd by (cases "py_rstrip r = []") (auto simp: py_rstrip_def)
  moreover have "text = qty_prefix text @ py_rstrip r @ rev (takeWhile is_py_space (rev r))"
    using app by (simp add: qty_prefix_def r_def)
  moreover have "\<forall>c \<in> set (rev (takeWhile is_py_space (rev r))). is_py_space c"
    by (auto dest: set_takeWhileD)
  ultimately show ?thesis
    using ends by (auto simp: d Let_def)
qed

theorem remove_quantity_clean_witness:
  "let d = remove_quantity ''2 cups flour  ''
   in (d = [] \<or> \<not> is_qty_char (hd d) \<and> \<not> is_py_space (last d)) \<and>
      (\<exists>sp. ''2 cups flour  '' = qty_prefix ''2 cups flour  '' @ d @ sp \<and> (\<forall>c \<in> set sp. is_py_space c))"
  by (rule remove_quantity_clean)

text \<open>
  C2. A line that starts with non-negative integers separated by single spaces, followed
  by a space and a description that does not start with a quantity character, has as its
  quantity the sum of the integers (when below \<open>2\<^sup>5\<^sup>3\<close>, so the float is exact) and
  as its description the stripped rest. In particular a count followed by a size, as in
  \<^verbatim>\<open>1 12 ounce can tomatoes\<close>, is read as their sum.
\<close>

theorem extract_quantity_sum:
  assumes "ns \<noteq> []" "\<forall>n \<in> set ns. 0 \<le> n" "sum_list ns < 2 ^ 53"
    and "desc = [] \<or> \<not> is_qty_char (hd desc)"
  shows "extract_quantity (join_with '' '' (map digits_of_int ns) @ '' '' @ desc) =
           Some (Fin (of_int (sum_list ns))) \<and>
         remove_quantity (join_with '' '' (map digits_of_int ns) @ '' '' @ desc) = py_strip desc"
proof -
  let ?j = "join_with '' '' (map digits_of_int ns)"
  have q: "\<forall>c \<in> set (?j @ '' ''). is_qty_char c"
    using assms(2) join_digits_qty space_qty_char by auto
  have pre: "qty_prefix (?j @ '' '' @ desc) = ?j @ '' ''"
    and rest: "dropWhile is_qty_char (?j @ '' '' @ desc) = desc"
    using qty_prefix_split [OF q assms(4)] by simp_all
  have strip: "py_strip (?j @ '' '') = ?j"
  proof -
    have "py_strip (?j @ '' '') = py_strip ?j" by (rule py_strip_spaces_right) simp
    also have "\<dots> = ?j"
      using join_digits_ends [OF assms(1,2)] by (intro py_strip_id) simp
    finally show ?thesis .
  qed
  have small: "\<forall>n \<in> set ns. 0 \<le> n \<and> length (digits_of_int n) \<le> max_str_digits"
  proof
    fix n assume n: "n \<in> set ns"
    have "n \<le> sum_list ns" using n assms(2) by (auto intro: Groups_List.member_le_sum_list)
    then show "0 \<le> n \<and> length (digits_of_int n) \<le> max_str_digits"
      using n assms(2,3) digits_of_int_length_small [of n] by simp
  qed
  have nonneg: "0 \<le> sum_list ns" using assms(2) by (simp add: sum_list_nonneg)
  have "\<bar>sum_list ns\<bar> < 2 ^ 53" using nonneg assms(3) by simp
  then show ?thesis
    using assms(1,2) pre rest strip small
    by (simp add: extract_quantity_def remove_quantity_def py_split_join_digits sum_fractions_digits
                  py_float_of_fraction_small_int Let_def)
qed

theorem extract_quantity_sum_witness:
  "extract_quantity (''1 12'' @ '' '' @ ''ounce can tomatoes'') = Some (Fin 13) \<and>
   remove_quantity (''1 12'' @ '' '' @ ''ounce can tomatoes'') = ''ounce can tomatoes''"
proof -
  have d: "digits_of_int 1 = ''1''" "digits_of_int 12 = ''12''"
    by (simp_all add: digits_of_int.simps digit_char_def char_of_def)
  have "\<not> is_qty_char (CHR ''o'')" by (simp add: is_qty_char_def is_digit_def is_py_space_def)
  then show ?thesis
    using extract_quantity_sum [of "[1, 12]" "''ounce can tomatoes''"]
    by (simp add: d py_strip_def py_lstrip_def py_rstrip_def is_py_space_def)
qed

text \<open>
  C25. A prefix of whitespace only is read as the quantity 0 (the sum of no tokens), where the specification expects a parse failure.
\<close>

theorem extract_quantity_blank:
  assumes "sp \<noteq> []" "\<forall>c \<in> set sp. is_py_space c" "desc = [] \<or> \<not> is_qty_char (hd desc)"
  shows "extract_quantity (sp @ desc) = Some (Fin 0)"
proof -
  have "qty_prefix (sp @ desc) = sp"
    using assms(2,3) by (intro qty_prefix_split) (auto intro: space_is_qty_char)
  moreover have "py_strip sp = []"
    using assms(2) by (simp add: py_strip_def py_lstrip_all_spaces py_rstrip_def)
  moreover have "py_float_of_int 0 = Inr (Fin 0)"
    using py_float_of_rat_small_int [of 0] by (simp add: py_float_of_int_def)
  ultimately show ?thesis
    using assms(1) by (simp add: extract_quantity_def Let_def)
qed

theorem extract_quantity_blank_witness: "extract_quantity ''  salt'' = Some (Fin 0)"
proof -
  have "\<not> is_qty_char (CHR ''s'')" by (simp add: is_qty_char_def is_digit_def is_py_space_def)
  then show ?thesis
    using extract_quantity_blank [of "''  ''" "''salt''"] by simp
qed

end
