(* ===== verification/Render.thy ===== *)
theory Render
  imports PyFloat PyFraction
begin

text \<open>
  \<^verbatim>\<open>decimal_to_fraction\<close> (\<^verbatim>\<open>main.py\<close> lines 26--33): a float is converted
  exactly to a \<open>Fraction\<close>, approximated by \<^verbatim>\<open>limit_denominator()\<close> (denominator at
  most \<open>10\<^sup>6\<close>) and printed as \<^verbatim>\<open>n\<close> or \<^verbatim>\<open>n/d\<close>; any exception prints the float
  itself with \<^verbatim>\<open>str\<close>.
\<close>

text \<open>The text of a \<open>Fraction\<close>: the numerator alone when the denominator is 1 (lines 29--31).\<close>

definition fraction_text :: "rat \<Rightarrow> string py" where
  "fraction_text f =
     (let (num, den) = quotient_of f
      in if den = 1 then py_str_int num
         else py_bind (py_str_int num) (\<lambda>n. py_bind (py_str_int den) (\<lambda>d. Inr (n @ ''/'' @ d))))"

definition decimal_to_fraction :: "f64 \<Rightarrow> string" where
  "decimal_to_fraction value =
     (case py_bind (py_bind (py_fraction_of_float value) (limit_denominator default_max_denominator))
                   fraction_text of
        Inl _ \<Rightarrow> py_float_repr value
      | Inr s \<Rightarrow> s)"

section \<open>What \<^verbatim>\<open>decimal_to_fraction\<close> prints\<close>

text \<open>
  C5. A positive value of at most \<open>1/2000000\<close> is printed as \<^verbatim>\<open>0\<close>: the closest
  fraction with a denominator of at most \<open>10\<^sup>6\<close> is zero, so a small positive
  quantity disappears from the ingredient line.
\<close>

theorem decimal_to_fraction_tiny:
  assumes "0 < x" "x \<le> 1 / 2000000"
  shows "decimal_to_fraction (Fin x) = ''0''"
proof -
  have "limit_denominator default_max_denominator x = Inr 0"
    using assms by (intro limit_denominator_tiny) (simp_all add: default_max_denominator_def)
  then show ?thesis
    by (simp add: decimal_to_fraction_def fraction_text_def py_str_int_def max_str_digits_def)
qed

theorem decimal_to_fraction_tiny_witness: "decimal_to_fraction (Fin (1 / 4194304)) = ''0''"
  by (rule decimal_to_fraction_tiny) simp_all

text \<open>
  C6. A value whose denominator is at most \<open>10\<^sup>6\<close> is printed exactly: its numerator,
  with a minus sign when negative, followed by \<^verbatim>\<open>/\<close> and the denominator unless that is 1.
\<close>

theorem decimal_to_fraction_exact:
  assumes "snd (quotient_of x) \<le> default_max_denominator"
    and "length (digits_of_int \<bar>fst (quotient_of x)\<bar>) \<le> max_str_digits"
  shows "decimal_to_fraction (Fin x) =
           (case quotient_of x of (n, d) \<Rightarrow>
              (if n < 0 then ''-'' else []) @ digits_of_int \<bar>n\<bar> @
              (if d = 1 then [] else ''/'' @ digits_of_int d))"
proof -
  obtain n d where qd: "quotient_of x = (n, d)" by (cases "quotient_of x")
  have d: "0 < d" using qd by (simp add: quotient_of_denom_pos)
  have dl: "length (digits_of_int d) \<le> max_str_digits"
    using d assms(1) qd digits_of_int_length_small [of d] by (simp add: default_max_denominator_def)
  have "limit_denominator default_max_denominator x = Inr x"
    using assms(1) by (intro limit_denominator_small) (simp_all add: default_max_denominator_def)
  then show ?thesis
    using assms(2) qd d dl
    by (simp add: decimal_to_fraction_def fraction_text_def py_str_int_digits)
qed

theorem decimal_to_fraction_exact_witness:
  "decimal_to_fraction (Fin (- 3 / 8)) = ''-3/8''"
proof -
  have q: "quotient_of (- 3 / 8 :: rat) = (- 3, 8)" by code_simp
  have d: "digits_of_int 3 = ''3''" "digits_of_int 8 = ''8''"
    by (simp_all add: digits_of_int.simps digit_char_def char_of_def)
  show ?thesis
    using decimal_to_fraction_exact [of "- 3 / 8"] q d
    by (simp add: default_max_denominator_def max_str_digits_def)
qed

end
