(* ===== verification/Duration.thy ===== *)
theory Duration
  imports Prelude
begin

text \<open>
  \<^verbatim>\<open>parse_iso8601_duration\<close> (\<^verbatim>\<open>main.py\<close> lines 49--63): the hours and minutes of
  an ISO-8601 time span \<^verbatim>\<open>PT<h>H<m>M\<close>, printed as a phrase. The pattern is anchored
  at the start only (\<^verbatim>\<open>re.match\<close>), and both groups are optional, so every string
  starting with \<^verbatim>\<open>PT\<close> matches.
\<close>

text \<open>
  \<^verbatim>\<open>(?:(\d+)H)?\<close> at the start of \<open>r\<close>: the digit group, if a maximal run of
  digits is followed by \<^verbatim>\<open>H\<close> (a shorter run is followed by a digit, so backtracking
  finds no other match), and what remains of the string.
\<close>

definition match_unit :: "char \<Rightarrow> string \<Rightarrow> string option \<times> string" where
  "match_unit u r =
     (let ds = takeWhile is_digit r; rest = dropWhile is_digit r
      in if ds \<noteq> [] \<and> rest \<noteq> [] \<and> hd rest = u then (Some ds, tl rest) else (None, r))"

text \<open>\<^verbatim>\<open>re.match(r'PT(?:(\d+)H)?(?:(\d+)M)?', duration)\<close>: the two groups, or no match.\<close>

definition match_duration :: "string \<Rightarrow> (string option \<times> string option) option" where
  "match_duration s =
     (if take 2 s = ''PT'' then
        (let (h, r) = match_unit (CHR ''H'') (drop 2 s); (m, _) = match_unit (CHR ''M'') r
         in Some (h, m))
      else None)"

text \<open>
  \<^verbatim>\<open>int(group) if group else 0\<close>; a group of more than 4300 digits makes \<^verbatim>\<open>int\<close>
  raise, and nothing in the function catches it.
\<close>

definition group_int :: "string option \<Rightarrow> int py" where
  "group_int g = (case g of None \<Rightarrow> Inr 0 | Some ds \<Rightarrow> py_int_of_digits ds)"

definition parse_iso8601_duration :: "string \<Rightarrow> string py" where
  "parse_iso8601_duration duration =
     (case match_duration duration of
        None \<Rightarrow> Inr duration
      | Some (g1, g2) \<Rightarrow>
          py_bind (group_int g1) (\<lambda>hours.
          py_bind (group_int g2) (\<lambda>minutes.
            if hours \<noteq> 0 \<and> minutes \<noteq> 0 then
              py_bind (py_str_int hours) (\<lambda>h. py_bind (py_str_int minutes) (\<lambda>m.
                Inr (h @ '' hours '' @ m @ '' minutes'')))
            else if hours \<noteq> 0 then map_sum id (\<lambda>h. h @ '' hours'') (py_str_int hours)
            else if minutes \<noteq> 0 then map_sum id (\<lambda>m. m @ '' minutes'') (py_str_int minutes)
            else Inr ''Not specified'')))"

text \<open>
  The text of an optional group: the digits of the number and the unit letter, or nothing.
  Used to state the properties of the parser.
\<close>

definition unit_part :: "int option \<Rightarrow> char \<Rightarrow> string" where
  "unit_part g u = (case g of None \<Rightarrow> [] | Some n \<Rightarrow> digits_of_int n @ [u])"

section \<open>Lemmas: the match of the pattern\<close>

lemma match_unit_digits:
  assumes "all_digits ds" "\<not> is_digit c"
  shows "match_unit u (ds @ c # r) = (if c = u then (Some ds, r) else (None, ds @ c # r))"
  using assms by (simp add: match_unit_def all_digits_def takeWhile_append2 dropWhile_append2)

lemma match_unit_no_digit:
  "r = [] \<or> \<not> is_digit (hd r) \<Longrightarrow> match_unit u r = (None, r)"
  by (cases r) (auto simp: match_unit_def)

lemma is_digit_letters [simp]: "\<not> is_digit (CHR ''H'')" "\<not> is_digit (CHR ''M'')"
  by (simp_all add: is_digit_def)

lemma match_duration_parts:
  assumes "\<forall>h. ho = Some h \<longrightarrow> 0 \<le> h" "\<forall>m. mo = Some m \<longrightarrow> 0 \<le> m"
    "rest = [] \<or> \<not> is_digit (hd rest)"
  shows "match_duration (''PT'' @ unit_part ho (CHR ''H'') @ unit_part mo (CHR ''M'') @ rest)
           = Some (map_option digits_of_int ho, map_option digits_of_int mo)"
proof -
  have m: "match_unit (CHR ''M'') (unit_part mo (CHR ''M'') @ rest) = (map_option digits_of_int mo, rest)"
    using assms(2,3) by (cases mo) (auto simp: unit_part_def match_unit_digits digits_of_int_all_digits match_unit_no_digit)
  have h: "match_unit (CHR ''H'') (unit_part ho (CHR ''H'') @ unit_part mo (CHR ''M'') @ rest)
             = (map_option digits_of_int ho, unit_part mo (CHR ''M'') @ rest)"
  proof (cases ho)
    case None
    then show ?thesis
    proof (cases mo)
      case None
      then show ?thesis using \<open>ho = None\<close> assms(3) by (simp add: unit_part_def match_unit_no_digit)
    next
      case (Some m)
      then show ?thesis using \<open>ho = None\<close> assms(2)
        by (simp add: unit_part_def match_unit_digits digits_of_int_all_digits)
    qed
  next
    case (Some h)
    then show ?thesis using assms(1)
      by (simp add: unit_part_def match_unit_digits digits_of_int_all_digits)
  qed
  show ?thesis
    by (simp add: match_duration_def h m)
qed


lemma group_int_digits:
  "(\<forall>n. g = Some n \<longrightarrow> 0 \<le> n \<and> length (digits_of_int n) \<le> max_str_digits) \<Longrightarrow>
   group_int (map_option digits_of_int g) = Inr (case g of None \<Rightarrow> 0 | Some n \<Rightarrow> n)"
  by (cases g) (simp_all add: group_int_def py_int_of_digits_of_int)

section \<open>The phrases\<close>

text \<open>
  C8. For an input \<^verbatim>\<open>PT<h>H<m>M\<close> in which either group may be absent, followed by
  anything that does not start with a digit, the hours and minutes are read back
  exactly and printed in the phrase the specification lists: both, hours only, minutes
  only, or \<^verbatim>\<open>Not specified\<close> when both are zero or absent.
\<close>

theorem parse_iso8601_duration_phrase:
  assumes "\<forall>h. ho = Some h \<longrightarrow> 0 \<le> h \<and> length (digits_of_int h) \<le> max_str_digits"
    and "\<forall>m. mo = Some m \<longrightarrow> 0 \<le> m \<and> length (digits_of_int m) \<le> max_str_digits"
    and "rest = [] \<or> \<not> is_digit (hd rest)"
  shows "parse_iso8601_duration (''PT'' @ unit_part ho (CHR ''H'') @ unit_part mo (CHR ''M'') @ rest) =
           Inr (let h = (case ho of None \<Rightarrow> 0 | Some h \<Rightarrow> h); m = (case mo of None \<Rightarrow> 0 | Some m \<Rightarrow> m)
                in if h \<noteq> 0 \<and> m \<noteq> 0 then digits_of_int h @ '' hours '' @ digits_of_int m @ '' minutes''
                   else if h \<noteq> 0 then digits_of_int h @ '' hours''
                   else if m \<noteq> 0 then digits_of_int m @ '' minutes''
                   else ''Not specified'')"
proof -
  define h where "h = (case ho of None \<Rightarrow> 0 | Some h \<Rightarrow> h)"
  define m where "m = (case mo of None \<Rightarrow> 0 | Some m \<Rightarrow> m)"
  have hm: "0 \<le> h" "length (digits_of_int h) \<le> max_str_digits"
           "0 \<le> m" "length (digits_of_int m) \<le> max_str_digits"
    using assms(1,2) by (auto simp: h_def m_def max_str_digits_def split: option.split)
  have "match_duration (''PT'' @ unit_part ho (CHR ''H'') @ unit_part mo (CHR ''M'') @ rest)
           = Some (map_option digits_of_int ho, map_option digits_of_int mo)"
    using assms by (intro match_duration_parts) auto
  moreover have "group_int (map_option digits_of_int ho) = Inr h"
    using assms(1) unfolding h_def by (rule group_int_digits)
  moreover have "group_int (map_option digits_of_int mo) = Inr m"
    using assms(2) unfolding m_def by (rule group_int_digits)
  ultimately show ?thesis
    using hm by (simp add: parse_iso8601_duration_def py_str_int_digits h_def [symmetric] m_def [symmetric] Let_def)
qed

theorem parse_iso8601_duration_phrase_witness:
  "parse_iso8601_duration ''PT1H30M'' = Inr ''1 hours 30 minutes'' \<and>
   parse_iso8601_duration ''PT2H'' = Inr ''2 hours''"
proof -
  have d: "digits_of_int 1 = ''1''" "digits_of_int 2 = ''2''" "digits_of_int 30 = ''30''"
    by (simp_all add: digits_of_int.simps digit_char_def char_of_def)
  have "parse_iso8601_duration (''PT'' @ unit_part (Some 1) (CHR ''H'') @ unit_part (Some 30) (CHR ''M'') @ []) =
          Inr ''1 hours 30 minutes''"
    using parse_iso8601_duration_phrase [of "Some 1" "Some 30" "[]"] by (simp add: d max_str_digits_def)
  moreover have "parse_iso8601_duration (''PT'' @ unit_part (Some 2) (CHR ''H'') @ unit_part None (CHR ''M'') @ []) =
          Inr ''2 hours''"
    using parse_iso8601_duration_phrase [of "Some 2" None "[]"] by (simp add: d max_str_digits_def)
  ultimately show ?thesis by (simp add: unit_part_def d)
qed

text \<open>
  A string that does not start with \<^verbatim>\<open>PT\<close> is returned unchanged.
\<close>

theorem parse_iso8601_duration_unmatched:
  "take 2 duration \<noteq> ''PT'' \<Longrightarrow> parse_iso8601_duration duration = Inr duration"
  by (simp add: parse_iso8601_duration_def match_duration_def)

theorem parse_iso8601_duration_unmatched_witness:
  "parse_iso8601_duration ''Not Available'' = Inr ''Not Available''"
  by (rule parse_iso8601_duration_unmatched) simp

end
