(* ===== verification/Json.thy ===== *)
theory Json
  imports PyFloat
begin

text \<open>
  The Python values \<^verbatim>\<open>json.loads\<close> returns, which \<^verbatim>\<open>scrape_foodcom_recipe\<close>
  (\<^verbatim>\<open>main.py\<close> lines 87--122) reads: \<open>None\<close>, booleans, ints, floats, strings,
  lists and dicts. A dict is the list of its items in insertion order, with distinct
  keys (\<^verbatim>\<open>json.loads\<close> keeps the last value of a repeated key). Besides the values,
  the operations the program applies to them: \<^verbatim>\<open>d.get(k, default)\<close>, iteration by
  \<^verbatim>\<open>for\<close>, and \<^verbatim>\<open>str\<close>, which for containers and strings inside them is \<^verbatim>\<open>repr\<close>.
\<close>

datatype json =
    JNull
  | JBool bool
  | JInt int
  | JFloat f64
  | JStr string
  | JArr "json list"
  | JObj "(string \<times> json) list"

section \<open>\<^verbatim>\<open>d.get(key, default)\<close> and iteration\<close>

text \<open>Only a dict has \<^verbatim>\<open>get\<close>; on any other value the call raises \<open>AttributeError\<close>.\<close>

fun py_get :: "json \<Rightarrow> string \<Rightarrow> json \<Rightarrow> json py" where
  "py_get (JObj kvs) k dflt = Inr (case map_of kvs k of None \<Rightarrow> dflt | Some v \<Rightarrow> v)"
| "py_get _ k dflt = Inl AttributeError"

text \<open>
  \<^verbatim>\<open>for x in v\<close>: a list yields its elements, a dict its keys, a string its
  one-character strings; \<open>None\<close>, booleans and numbers are not iterable.
\<close>

fun py_iter :: "json \<Rightarrow> json list py" where
  "py_iter (JArr xs) = Inr xs"
| "py_iter (JObj kvs) = Inr (map (\<lambda>kv. JStr (fst kv)) kvs)"
| "py_iter (JStr s) = Inr (map (\<lambda>c. JStr [c]) s)"
| "py_iter _ = Inl TypeError"

section \<open>\<^verbatim>\<open>str\<close> and \<^verbatim>\<open>repr\<close>\<close>

definition hex_digit :: "int \<Rightarrow> char" where
  "hex_digit d = (if d < 10 then digit_char d else char_of (87 + d))"

text \<open>
  One character inside the quotes of a string's \<^verbatim>\<open>repr\<close>, for the chosen quote
  \<open>q\<close>: the quote and the backslash are escaped, tab, newline and return have their
  short escapes, and the other non-printable Latin-1 characters (below space, DEL, the
  C1 controls, no-break space and soft hyphen) are written \<^verbatim>\<open>\xNN\<close>.
\<close>

definition repr_char :: "char \<Rightarrow> char \<Rightarrow> string" where
  "repr_char q c =
     (let n = (of_char c :: int); bs = CHR 0x5C
      in if c = q \<or> c = bs then [bs, c]
         else if n = 9 then [bs, CHR ''t'']
         else if n = 10 then [bs, CHR ''n'']
         else if n = 13 then [bs, CHR ''r'']
         else if n < 32 \<or> (127 \<le> n \<and> n \<le> 160) \<or> n = 173
           then [bs, CHR ''x'', hex_digit (n div 16), hex_digit (n mod 16)]
         else [c])"

text \<open>Single quotes, unless the string contains a single quote and no double quote.\<close>

definition py_repr_str :: "string \<Rightarrow> string" where
  "py_repr_str s =
     (let q = (if CHR 0x27 \<in> set s \<and> CHR 0x22 \<notin> set s then CHR 0x22 else CHR 0x27)
      in q # concat (map (repr_char q) s) @ [q])"

fun py_repr :: "json \<Rightarrow> string py"
  and py_repr_elems :: "json list \<Rightarrow> string list py"
  and py_repr_items :: "(string \<times> json) list \<Rightarrow> string list py" where
  "py_repr JNull = Inr ''None''"
| "py_repr (JBool b) = Inr (if b then ''True'' else ''False'')"
| "py_repr (JInt i) = py_str_int i"
| "py_repr (JFloat f) = Inr (py_float_repr f)"
| "py_repr (JStr s) = Inr (py_repr_str s)"
| "py_repr (JArr xs) = map_sum id (\<lambda>es. ''['' @ join_with '', '' es @ '']'') (py_repr_elems xs)"
| "py_repr (JObj kvs) = map_sum id (\<lambda>es. ''{'' @ join_with '', '' es @ ''}'') (py_repr_items kvs)"
| "py_repr_elems [] = Inr []"
| "py_repr_elems (x # xs) = py_bind (py_repr x) (\<lambda>e. map_sum id (Cons e) (py_repr_elems xs))"
| "py_repr_items [] = Inr []"
| "py_repr_items ((k, v) # kvs) =
     py_bind (py_repr v) (\<lambda>e. map_sum id (Cons (py_repr_str k @ '': '' @ e)) (py_repr_items kvs))"

text \<open>\<^verbatim>\<open>str(v)\<close>: a string is itself, every other value its \<^verbatim>\<open>repr\<close>.\<close>

fun py_str :: "json \<Rightarrow> string py" where
  "py_str (JStr s) = Inr s"
| "py_str v = py_repr v"

text \<open>
  The values \<^verbatim>\<open>str\<close> can print: every int within CPython's 4300-digit limit.
\<close>

fun json_ints_ok :: "json \<Rightarrow> bool"
  and json_ints_ok_elems :: "json list \<Rightarrow> bool"
  and json_ints_ok_items :: "(string \<times> json) list \<Rightarrow> bool" where
  "json_ints_ok (JInt i) = (length (digits_of_int \<bar>i\<bar>) \<le> max_str_digits)"
| "json_ints_ok (JArr xs) = json_ints_ok_elems xs"
| "json_ints_ok (JObj kvs) = json_ints_ok_items kvs"
| "json_ints_ok _ = True"
| "json_ints_ok_elems [] = True"
| "json_ints_ok_elems (x # xs) = (json_ints_ok x \<and> json_ints_ok_elems xs)"
| "json_ints_ok_items [] = True"
| "json_ints_ok_items ((k, v) # kvs) = (json_ints_ok v \<and> json_ints_ok_items kvs)"

section \<open>Lemmas\<close>

lemma py_repr_ints_ok:
  "json_ints_ok v \<Longrightarrow> \<exists>t. py_repr v = Inr t"
  "json_ints_ok_elems xs \<Longrightarrow> \<exists>ts. py_repr_elems xs = Inr ts"
  "json_ints_ok_items kvs \<Longrightarrow> \<exists>ts. py_repr_items kvs = Inr ts"
  by (induction v and xs and kvs rule: py_repr_py_repr_elems_py_repr_items.induct)
     (auto simp: py_str_int_def py_bind_def Let_def)

lemma py_str_ints_ok: "json_ints_ok v \<Longrightarrow> \<exists>t. py_str v = Inr t"
  by (cases v) (use py_repr_ints_ok(1) [of v] in auto)

end
