(* ===== verification/Scraper.thy ===== *)
theory Scraper
  imports Quantity Render Duration Json
begin

text \<open>
  The page processor and the main loop of \<^verbatim>\<open>main.py\<close>: \<^verbatim>\<open>scrape_foodcom_recipe\<close>
  (lines 69--130) turns the JSON-LD record of one page into a row, \<^verbatim>\<open>save_to_csv\<close>
  (lines 136--139) appends the row to the CSV file, and the loop of lines 145--156
  runs both over the pages in order. The browser, the HTML parser and
  \<^verbatim>\<open>json.loads\<close> are external: what they deliver for a page is a value of
  \<open>page\<close>. The CSV file is the list of its lines, \<open>None\<close> while it does not exist.
\<close>

section \<open>The serving yield (lines 92--96)\<close>

text \<open>\<^verbatim>\<open>re.search(r'\d+', s)\<close>: the leftmost, longest run of digits.\<close>

definition first_digit_run :: "string \<Rightarrow> string option" where
  "first_digit_run s =
     (let r = dropWhile (\<lambda>c. \<not> is_digit c) s
      in if r = [] then None else Some (takeWhile is_digit r))"

text \<open>
  \<^verbatim>\<open>int(re.search(r'\d+', str(recipe_yield)).group())\<close>, and 1 on any exception:
  no digit (\<^verbatim>\<open>None.group()\<close> raises \<open>AttributeError\<close>), a run over 4300 digits, or
  a \<^verbatim>\<open>str\<close> that raises.
\<close>

definition yield_number :: "json \<Rightarrow> int" where
  "yield_number recipe_yield =
     (case py_bind (py_str recipe_yield) (\<lambda>s.
             case first_digit_run s of
               None \<Rightarrow> Inl AttributeError
             | Some ds \<Rightarrow> py_int_of_digits ds) of
        Inl _ \<Rightarrow> 1
      | Inr n \<Rightarrow> n)"

section \<open>The ingredient lines (lines 98--111)\<close>

text \<open>
  One iteration of the loop: the quantity is scaled and rendered only when it was
  parsed, is positive and the yield is non-zero; otherwise the line is the description
  alone. A non-string item makes \<^verbatim>\<open>re.match\<close> raise \<open>TypeError\<close>.
\<close>

definition format_ingredient :: "int \<Rightarrow> json \<Rightarrow> string py" where
  "format_ingredient yield_num item =
     (case item of
        JStr text \<Rightarrow>
          (let qty = extract_quantity text; ing = remove_quantity text
           in case qty of
                Some q \<Rightarrow>
                  if py_float_pos q \<and> yield_num \<noteq> 0 then
                    py_bind (py_float_div_int q yield_num) (\<lambda>scaled_qty.
                      Inr (py_strip (decimal_to_fraction scaled_qty @ '' '' @ ing)))
                  else Inr (py_strip ing)
              | None \<Rightarrow> Inr (py_strip ing))
      | _ \<Rightarrow> Inl TypeError)"

fun format_ingredients :: "int \<Rightarrow> json list \<Rightarrow> string list py" where
  "format_ingredients yield_num [] = Inr []"
| "format_ingredients yield_num (item # items) =
     py_bind (format_ingredient yield_num item) (\<lambda>l.
       map_sum id (Cons l) (format_ingredients yield_num items))"

definition ingredients_or_sentinel :: "string list \<Rightarrow> string list" where
  "ingredients_or_sentinel ls = (if ls = [] then [''Ingredients not found''] else ls)"

section \<open>The directions (lines 113--115)\<close>

definition step_text :: "json \<Rightarrow> json py" where
  "step_text step = py_get step ''text'' (JStr [])"

fun step_texts :: "json list \<Rightarrow> json list py" where
  "step_texts [] = Inr []"
| "step_texts (s # ss) = py_bind (step_text s) (\<lambda>t. map_sum id (Cons t) (step_texts ss))"

definition directions_or_sentinel :: "json list \<Rightarrow> json list" where
  "directions_or_sentinel ds = (if ds = [] then [JStr ''Directions not found''] else ds)"

fun json_strs :: "json list \<Rightarrow> string list option" where
  "json_strs [] = Some []"
| "json_strs (JStr s # xs) = map_option (Cons s) (json_strs xs)"
| "json_strs (_ # xs) = None"

text \<open>\<^verbatim>\<open>sep.join(xs)\<close>, which raises \<open>TypeError\<close> on an element that is not a string.\<close>

definition py_join :: "string \<Rightarrow> json list \<Rightarrow> string py" where
  "py_join sep xs = (case json_strs xs of None \<Rightarrow> Inl TypeError | Some ss \<Rightarrow> Inr (join_with sep ss))"

definition newline :: string where
  "newline = [CHR 0x0A]"

section \<open>One page (lines 69--130)\<close>

text \<open>The row of the CSV file (lines 117--122).\<close>

record recipe_data =
  dish_name :: json
  ready_in_time :: string
  ingredients_col :: string
  directions_col :: string

text \<open>
  Lines 89--124, the body of the \<^verbatim>\<open>try\<close> once \<^verbatim>\<open>json_data\<close> is decoded, in the
  order of the source; an exception anywhere is an \<open>Inl\<close>.
\<close>

definition scrape_json :: "json \<Rightarrow> recipe_data py" where
  "scrape_json json_data =
     py_bind (py_get json_data ''name'' (JStr ''Unknown Dish'')) (\<lambda>dish.
     py_bind (py_get json_data ''totalTime'' (JStr ''Not Available'')) (\<lambda>total_time.
     py_bind (case total_time of JStr d \<Rightarrow> parse_iso8601_duration d | _ \<Rightarrow> Inl TypeError) (\<lambda>ready.
     py_bind (py_get json_data ''recipeYield'' (JStr ''1'')) (\<lambda>recipe_yield.
     py_bind (py_get json_data ''recipeIngredient'' (JArr [])) (\<lambda>raw_ingredients.
     py_bind (py_iter raw_ingredients) (\<lambda>items.
     py_bind (format_ingredients (yield_number recipe_yield) items) (\<lambda>ings.
     py_bind (py_get json_data ''recipeInstructions'' (JArr [])) (\<lambda>raw_steps.
     py_bind (py_iter raw_steps) (\<lambda>steps.
     py_bind (step_texts steps) (\<lambda>dirs.
     py_bind (py_join newline (directions_or_sentinel dirs)) (\<lambda>directions.
       Inr \<lparr>dish_name = dish, ready_in_time = ready,
            ingredients_col = join_with newline (ingredients_or_sentinel ings),
            directions_col = directions\<rparr>)))))))))))"

text \<open>
  What the external collaborators deliver for one URL: the driver could not be
  started (lines 74--75, outside the \<^verbatim>\<open>try\<close>), loading the page raised an
  exception (line 78, before the \<^verbatim>\<open>time.sleep(3)\<close> of line 79), reading the page source
  or parsing it raised (line 80, after the sleep), it has no \<^verbatim>\<open>application/ld+json\<close> script
  (line 83), the script does not decode (line 87: \<^verbatim>\<open>JSONDecodeError\<close>, a
  \<open>ValueError\<close>, or \<open>TypeError\<close> when the tag has no string), or the decoded value.
\<close>

datatype page =
    DriverStartFailure
  | LoadFailure py_error
  | ParseFailure py_error
  | NoLdJson
  | LdJsonUndecodable py_error
  | LdJson json

text \<open>
  \<^verbatim>\<open>scrape_foodcom_recipe\<close>: \<open>Inl\<close> is an exception that leaves the function,
  \<open>Inr None\<close> a page that is skipped, \<open>Inr (Some d)\<close> its row.
\<close>

definition scrape_foodcom_recipe :: "page \<Rightarrow> recipe_data option py" where
  "scrape_foodcom_recipe p =
     (case p of
        DriverStartFailure \<Rightarrow> Inl WebDriverException
      | LdJson j \<Rightarrow> (case scrape_json j of Inl _ \<Rightarrow> Inr None | Inr d \<Rightarrow> Inr (Some d))
      | _ \<Rightarrow> Inr None)"

section \<open>The CSV file and the main loop\<close>

datatype csv_line = CsvHeader | CsvRow recipe_data

type_synonym csv_file = "csv_line list option"

text \<open>\<^verbatim>\<open>save_to_csv\<close>: append the row, after a header line if the file is new.\<close>

definition save_to_csv :: "recipe_data \<Rightarrow> csv_file \<Rightarrow> csv_file" where
  "save_to_csv data f =
     (case f of None \<Rightarrow> Some [CsvHeader, CsvRow data] | Some ls \<Rightarrow> Some (ls @ [CsvRow data]))"

text \<open>
  Lines 145--156: the pages in order. The result is the file and whether the loop
  ran to its end (line 156, which prints that all recipes were scraped); an exception
  leaving \<^verbatim>\<open>scrape_foodcom_recipe\<close> is uncaught and ends the program.
\<close>

fun scrape_all :: "page list \<Rightarrow> csv_file \<Rightarrow> csv_file \<times> bool" where
  "scrape_all [] f = (f, True)"
| "scrape_all (p # ps) f =
     (case scrape_foodcom_recipe p of
        Inl _ \<Rightarrow> (f, False)
      | Inr None \<Rightarrow> scrape_all ps f
      | Inr (Some d) \<Rightarrow> scrape_all ps (save_to_csv d f))"

section \<open>The contract of the main loop\<close>

text \<open>
  The rows a page contributes (one when \<^verbatim>\<open>scrape_foodcom_recipe\<close> returns a record,
  none when it returns \<^verbatim>\<open>None\<close>), the file after appending rows as
  \<^verbatim>\<open>save_to_csv\<close> promises (a header first when the file is new), and the shape of
  a well-formed file: one header line, first.
\<close>

definition page_row :: "page \<Rightarrow> recipe_data list" where
  "page_row p = (case scrape_foodcom_recipe p of Inr (Some d) \<Rightarrow> [d] | _ \<Rightarrow> [])"

definition csv_append :: "csv_file \<Rightarrow> recipe_data list \<Rightarrow> csv_file" where
  "csv_append f rows =
     (if rows = [] then f
      else Some ((case f of None \<Rightarrow> [CsvHeader] | Some ls \<Rightarrow> ls) @ map CsvRow rows))"

definition csv_wf :: "csv_file \<Rightarrow> bool" where
  "csv_wf f =
     (case f of
        None \<Rightarrow> True
      | Some ls \<Rightarrow> (case ls of CsvHeader # rest \<Rightarrow> CsvHeader \<notin> set rest | _ \<Rightarrow> False))"

section \<open>Lemmas\<close>

lemma first_digit_run_split:
  assumes "\<forall>c \<in> set pre. \<not> is_digit c" "all_digits ds" "post = [] \<or> \<not> is_digit (hd post)"
  shows "first_digit_run (pre @ ds @ post) = Some ds"
proof -
  have "dropWhile (\<lambda>c. \<not> is_digit c) (pre @ ds @ post) = ds @ post"
    using assms(1,2) by (cases ds) (auto simp: all_digits_def dropWhile_append2)
  moreover have "takeWhile is_digit (ds @ post) = ds"
    using assms(2,3) by (cases post) (auto simp: all_digits_def takeWhile_append2)
  ultimately show ?thesis
    using assms(2) by (simp add: first_digit_run_def all_digits_def)
qed

lemma first_digit_run_None: "\<forall>c \<in> set s. \<not> is_digit c \<Longrightarrow> first_digit_run s = None"
  by (simp add: first_digit_run_def)

lemma scrape_foodcom_recipe_Inl:
  "(\<exists>e. scrape_foodcom_recipe p = Inl e) \<longleftrightarrow> p = DriverStartFailure"
  by (auto simp: scrape_foodcom_recipe_def split: page.splits sum.splits)

lemma scrape_all_step:
  "p \<noteq> DriverStartFailure \<Longrightarrow>
   scrape_all (p # ps) f = scrape_all ps (csv_append f (page_row p))"
  by (auto simp: page_row_def scrape_foodcom_recipe_def csv_append_def save_to_csv_def
           split: page.splits sum.splits option.splits)

lemma csv_append_append: "csv_append (csv_append f xs) ys = csv_append f (xs @ ys)"
  by (auto simp: csv_append_def split: option.split)

lemma scrape_all_acc:
  "DriverStartFailure \<notin> set ps \<Longrightarrow>
   scrape_all ps (csv_append f xs) = (csv_append f (xs @ concat (map page_row ps)), True)"
proof (induction ps arbitrary: xs)
  case Nil
  then show ?case by simp
next
  case (Cons p ps)
  then have "scrape_all (p # ps) (csv_append f xs) = scrape_all ps (csv_append (csv_append f xs) (page_row p))"
    by (intro scrape_all_step) auto
  also have "\<dots> = scrape_all ps (csv_append f (xs @ page_row p))"
    by (simp only: csv_append_append)
  also have "\<dots> = (csv_append f ((xs @ page_row p) @ concat (map page_row ps)), True)"
    using Cons by simp
  finally show ?case by simp
qed

lemma csv_wf_save: "csv_wf f \<Longrightarrow> csv_wf (save_to_csv d f)"
  by (auto simp: csv_wf_def save_to_csv_def split: option.splits list.splits csv_line.splits)

lemma step_texts_strings:
  "list_all2 (\<lambda>st s. py_get st ''text'' (JStr []) = Inr (JStr s)) steps dirs \<Longrightarrow>
   step_texts steps = Inr (map JStr dirs)"
  by (induction steps dirs rule: list_all2_induct) (simp_all add: step_text_def)

lemma json_strs_map_JStr [simp]: "json_strs (map JStr xs) = Some xs"
  by (induction xs) simp_all

lemma py_join_directions:
  "py_join sep (directions_or_sentinel (map JStr dirs)) =
     Inr (join_with sep (if dirs = [] then [''Directions not found''] else dirs))"
  by (simp add: py_join_def directions_or_sentinel_def)

section \<open>The serving yield\<close>

text \<open>
  C10. When the text of the yield has a first run of digits (of at most 4300 digits), the yield is the value of that run, whatever surrounds it.
\<close>

theorem yield_number_first_run:
  assumes "\<forall>c \<in> set pre. \<not> is_digit c" "all_digits ds" "post = [] \<or> \<not> is_digit (hd post)"
    and "length ds \<le> max_str_digits"
  shows "yield_number (JStr (pre @ ds @ post)) = int_of_digits ds"
  using assms first_digit_run_split [OF assms(1-3)]
  by (simp add: yield_number_def py_int_of_all_digits)

theorem yield_number_first_run_witness: "yield_number (JStr ''serves 4 people'') = 4"
proof -
  have "yield_number (JStr (''serves '' @ ''4'' @ '' people'')) = int_of_digits ''4''"
    by (rule yield_number_first_run) (simp_all add: is_digit_def all_digits_def max_str_digits_def)
  then show ?thesis by (simp add: digit_value_def)
qed

text \<open>
  A yield text with no digit gives the yield 1.
\<close>

theorem yield_number_no_digit:
  "\<forall>c \<in> set s. \<not> is_digit c \<Longrightarrow> yield_number (JStr s) = 1"
  by (simp add: yield_number_def first_digit_run_None)

theorem yield_number_no_digit_witness: "yield_number (JStr ''serves many'') = 1"
  by (rule yield_number_no_digit) (simp add: is_digit_def)

text \<open>
  C12. An integer yield is read as its absolute value: \<^verbatim>\<open>str\<close> prints the sign, which the search for digits skips.
\<close>

theorem yield_number_int:
  assumes "length (digits_of_int \<bar>n\<bar>) \<le> max_str_digits"
  shows "yield_number (JInt n) = \<bar>n\<bar>"
proof -
  have "first_digit_run ((if n < 0 then ''-'' else []) @ digits_of_int \<bar>n\<bar> @ []) = Some (digits_of_int \<bar>n\<bar>)"
    by (rule first_digit_run_split) (simp_all add: is_digit_def digits_of_int_all_digits)
  then show ?thesis
    using assms by (simp add: yield_number_def py_str_int_digits py_int_of_digits_of_int)
qed

theorem yield_number_int_witness: "yield_number (JInt (- 4)) = 4"
  using yield_number_int [of "- 4"]
  by (simp add: digits_of_int.simps max_str_digits_def)

section \<open>The ingredient loop\<close>

lemma format_ingredient_nonstring: "\<forall>t. x \<noteq> JStr t \<Longrightarrow> format_ingredient y x = Inl TypeError"
  by (cases x) (simp_all add: format_ingredient_def)

lemma format_ingredients_nonstring:
  "x \<in> set items \<Longrightarrow> \<forall>t. x \<noteq> JStr t \<Longrightarrow> \<exists>e. format_ingredients y items = Inl e"
proof (induction items)
  case Nil
  then show ?case by simp
next
  case (Cons i items)
  show ?case
  proof (cases "i = x")
    case True
    then show ?thesis using format_ingredient_nonstring [OF Cons.prems(2), of y] by (simp add: py_bind_def)
  next
    case False
    then obtain e where "format_ingredients y items = Inl e" using Cons by auto
    then show ?thesis by (simp add: py_bind_def split: sum.split)
  qed
qed

text \<open>
  C13. A recipe whose ingredient list holds an item that is not a string (a
  \<^verbatim>\<open>HowToSection\<close> object, a number) makes the ingredient loop raise
  \<^verbatim>\<open>TypeError\<close> in \<^verbatim>\<open>re.match\<close>: the whole page is dropped, with no row, rather
  than that one line.
\<close>

theorem scrape_nonstring_ingredient:
  assumes "map_of kvs ''recipeIngredient'' = Some (JArr items)"
    and "x \<in> set items" and "\<forall>t. x \<noteq> JStr t"
  shows "scrape_foodcom_recipe (LdJson (JObj kvs)) = Inr None"
proof -
  have "\<exists>e. scrape_json (JObj kvs) = Inl e"
  proof -
    have "format_ingredients y items \<noteq> Inr ls" for y ls
      using format_ingredients_nonstring [OF assms(2,3), of y] by auto
    then show ?thesis using assms(1) by (auto simp: scrape_json_def py_bind_def split: sum.splits)
  qed
  then show ?thesis by (auto simp: scrape_foodcom_recipe_def)
qed

theorem scrape_nonstring_ingredient_witness:
  "map_of [(''name'', JStr ''Samosas''), (''recipeIngredient'', JArr [JStr ''2 cups flour'', JObj []])]
     ''recipeIngredient'' = Some (JArr [JStr ''2 cups flour'', JObj []]) \<and>
   JObj [] \<in> set [JStr ''2 cups flour'', JObj []] \<and> (\<forall>t. JObj [] \<noteq> JStr t) \<and>
   scrape_foodcom_recipe (LdJson (JObj [(''name'', JStr ''Samosas''),
     (''recipeIngredient'', JArr [JStr ''2 cups flour'', JObj []])])) = Inr None"
proof -
  have m: "map_of [(''name'', JStr ''Samosas''), (''recipeIngredient'', JArr [JStr ''2 cups flour'', JObj []])]
     ''recipeIngredient'' = Some (JArr [JStr ''2 cups flour'', JObj []])" by simp
  have i: "JObj [] \<in> set [JStr ''2 cups flour'', JObj []]" and n: "\<forall>t. JObj [] \<noteq> JStr t" by simp_all
  show ?thesis using m i n scrape_nonstring_ingredient [OF m i n] by blast
qed

section \<open>The main loop\<close>

text \<open>
  C14. When no browser fails to start, the run ends normally and the file gets one row per page that produced a record, in the order of the pages, after a header if the file was new.
\<close>

theorem scrape_all_rows:
  "DriverStartFailure \<notin> set ps \<Longrightarrow>
   scrape_all ps f = (csv_append f (concat (map page_row ps)), True)"
  using scrape_all_acc [of ps f "[]"] by (simp add: csv_append_def)

theorem scrape_all_rows_witness:
  "scrape_all [LdJson (JObj []), LoadFailure WebDriverException] None =
     (Some [CsvHeader, CsvRow \<lparr>dish_name = JStr ''Unknown Dish'', ready_in_time = ''Not Available'',
                               ingredients_col = ''Ingredients not found'',
                               directions_col = ''Directions not found''\<rparr>], True)"
proof -
  have "DriverStartFailure \<notin> set [LdJson (JObj []), LoadFailure WebDriverException]" by simp
  then have "scrape_all [LdJson (JObj []), LoadFailure WebDriverException] None =
               (csv_append None (concat (map page_row [LdJson (JObj []), LoadFailure WebDriverException])), True)"
    by (rule scrape_all_rows)
  then show ?thesis
    by (simp add: page_row_def csv_append_def scrape_foodcom_recipe_def scrape_json_def
                  parse_iso8601_duration_def match_duration_def yield_number_def
                  ingredients_or_sentinel_def directions_or_sentinel_def py_join_def newline_def)
qed

text \<open>
  C15. A browser that fails to start ends the whole run: the rows of the pages before it are kept, no later page is scraped, and the final message is not reached.
\<close>

theorem scrape_all_driver_failure:
  "DriverStartFailure \<notin> set ps \<Longrightarrow>
   scrape_all (ps @ DriverStartFailure # qs) f = (csv_append f (concat (map page_row ps)), False)"
proof (induction ps arbitrary: f)
  case Nil
  then show ?case by (simp add: csv_append_def scrape_foodcom_recipe_def)
next
  case (Cons p ps)
  have "scrape_all ((p # ps) @ DriverStartFailure # qs) f
          = scrape_all (ps @ DriverStartFailure # qs) (csv_append f (page_row p))"
    using Cons.prems by (simp only: append_Cons, intro scrape_all_step) auto
  also have "\<dots> = (csv_append (csv_append f (page_row p)) (concat (map page_row ps)), False)"
    using Cons by simp
  also have "csv_append (csv_append f (page_row p)) (concat (map page_row ps))
             = csv_append f (concat (map page_row (p # ps)))"
    by (auto simp: page_row_def csv_append_def split: sum.split option.split)
  finally show ?case .
qed

theorem scrape_all_driver_failure_witness:
  "scrape_all [LoadFailure WebDriverException, DriverStartFailure, LdJson (JObj [])] None = (None, False)"
  using scrape_all_driver_failure [of "[LoadFailure WebDriverException]" "[LdJson (JObj [])]" None]
  by (simp add: page_row_def csv_append_def scrape_foodcom_recipe_def)

text \<open>
  C16. The file stays well formed: a single header line, at the top.
\<close>

theorem scrape_all_csv_wf: "csv_wf f \<Longrightarrow> csv_wf (fst (scrape_all ps f))"
proof (induction ps arbitrary: f)
  case (Cons p ps)
  then show ?case
    by (auto simp: csv_wf_save split: sum.split option.split)
qed simp

theorem scrape_all_csv_wf_witness:
  "csv_wf (fst (scrape_all [LdJson (JObj []), LdJson (JObj [])] (Some [CsvHeader])))"
  by (rule scrape_all_csv_wf) (simp add: csv_wf_def)

end
