(* ===== verification/MainLoop.thy ===== *)
theory MainLoop
  imports Scraper "HOL-Library.Sublist"
begin

text \<open>
  The effects of \<^verbatim>\<open>main.py\<close> besides the CSV file: the browser session each call of
  \<^verbatim>\<open>scrape_foodcom_recipe\<close> opens (line 75) and closes in its \<^verbatim>\<open>finally\<close>
  (line 130), the \<^verbatim>\<open>time.sleep(3)\<close> after the page has loaded (line 79), and the
  lines printed on the console (lines 84, 127, 139, 146--153 and 156). They are the
  events of a trace; a printed line is the event with the data it
  shows, not its text. The main loop over the URL list (lines 15--20 and 145--156) is a
  step relation on configurations: running with the URLs still to scrape, finished
  after line 156, or stopped by an exception that leaves the loop. The environment picks
  the page each URL yields, so the relation is nondeterministic; \<open>main_loop\<close> is the
  run for one choice of pages.
\<close>

section \<open>The URL list (lines 15--20)\<close>

definition urls :: "string list" where
  "urls =
     [''https://www.food.com/recipe/palak-paneer-indian-fresh-spinach-with-paneer-cheese-25348'',
      ''https://www.food.com/recipe/oven-baked-vegetarian-samosas-397782'']"

section \<open>Events\<close>

datatype event =
    DriverStarted
  | DriverQuit
  | PrintScraping string
  | PrintJsonNotFound string
  | PrintScrapeError string py_error
  | PrintRecipe recipe_data
  | PrintSaved string
  | PrintAllScraped
  | Slept nat

text \<open>
  \<^verbatim>\<open>scrape_foodcom_recipe(url)\<close> with its effects: the events it emits and its result.
  A driver that fails to start raises out of the function before the \<^verbatim>\<open>try\<close>, with no
  session open; every other outcome runs the \<^verbatim>\<open>finally\<close> and quits the driver, after
  the message of the \<^verbatim>\<open>except\<close> or of the missing JSON block. The sleep of line 79
  happens once \<^verbatim>\<open>driver.get\<close> has returned, so on every outcome but a failed load.
\<close>

definition scrape_foodcom_recipe_io :: "string \<Rightarrow> page \<Rightarrow> event list \<times> recipe_data option py" where
  "scrape_foodcom_recipe_io url p =
     (case p of
        DriverStartFailure \<Rightarrow> ([], Inl WebDriverException)
      | LoadFailure e \<Rightarrow> ([DriverStarted, PrintScrapeError url e, DriverQuit], Inr None)
      | ParseFailure e \<Rightarrow> ([DriverStarted, Slept 3, PrintScrapeError url e, DriverQuit], Inr None)
      | NoLdJson \<Rightarrow> ([DriverStarted, Slept 3, PrintJsonNotFound url, DriverQuit], Inr None)
      | LdJsonUndecodable e \<Rightarrow> ([DriverStarted, Slept 3, PrintScrapeError url e, DriverQuit], Inr None)
      | LdJson j \<Rightarrow>
          (case scrape_json j of
             Inl e \<Rightarrow> ([DriverStarted, Slept 3, PrintScrapeError url e, DriverQuit], Inr None)
           | Inr d \<Rightarrow> ([DriverStarted, Slept 3, DriverQuit], Inr (Some d))))"

section \<open>The state of the program and one iteration of the loop\<close>

record run_state =
  csv :: csv_file
  out :: "event list"

text \<open>\<^verbatim>\<open>save_to_csv(data)\<close> with the default file name and its message (line 139).\<close>

definition save_to_csv_io :: "recipe_data \<Rightarrow> run_state \<Rightarrow> run_state" where
  "save_to_csv_io d s = s\<lparr>csv := save_to_csv d (csv s), out := out s @ [PrintSaved ''rec.csv'']\<rparr>"

text \<open>
  Lines 146--154 for one URL and the page it yields: the result is the state after the
  iteration, or \<open>Inl\<close> with the state when the exception was raised. A returned
  record is printed and saved (a non-empty dict is true in \<^verbatim>\<open>if recipe_data\<close>).
\<close>

definition iteration :: "string \<Rightarrow> page \<Rightarrow> run_state \<Rightarrow> run_state + run_state" where
  "iteration url p s =
     (let (evs, r) = scrape_foodcom_recipe_io url p;
          s1 = s\<lparr>out := out s @ PrintScraping url # evs\<rparr>
      in case r of
           Inl _ \<Rightarrow> Inl s1
         | Inr None \<Rightarrow> Inr s1
         | Inr (Some d) \<Rightarrow> Inr (save_to_csv_io d (s1\<lparr>out := out s1 @ [PrintRecipe d]\<rparr>)))"

section \<open>The main loop as a step relation\<close>

datatype config =
    Running "string list" run_state
  | Finished run_state
  | Stopped run_state

inductive main_step :: "config \<Rightarrow> config \<Rightarrow> bool" where
  next_url: "iteration u p s = Inr s' \<Longrightarrow> main_step (Running (u # us) s) (Running us s')"
| raised: "iteration u p s = Inl s' \<Longrightarrow> main_step (Running (u # us) s) (Stopped s')"
| finish: "main_step (Running [] s) (Finished (s\<lparr>out := out s @ [PrintAllScraped]\<rparr>))"

definition final :: "config \<Rightarrow> bool" where
  "final c = (case c of Running _ _ \<Rightarrow> False | _ \<Rightarrow> True)"

definition state_of :: "config \<Rightarrow> run_state" where
  "state_of c = (case c of Running _ s \<Rightarrow> s | Finished s \<Rightarrow> s | Stopped s \<Rightarrow> s)"

definition init_config :: "csv_file \<Rightarrow> config" where
  "init_config f = Running urls \<lparr>csv = f, out = []\<rparr>"

text \<open>The run for a given page of each URL.\<close>

fun main_loop :: "(string \<Rightarrow> page) \<Rightarrow> string list \<Rightarrow> run_state \<Rightarrow> config" where
  "main_loop fetch [] s = Finished (s\<lparr>out := out s @ [PrintAllScraped]\<rparr>)"
| "main_loop fetch (u # us) s =
     (case iteration u (fetch u) s of
        Inl s' \<Rightarrow> Stopped s'
      | Inr s' \<Rightarrow> main_loop fetch us s')"

section \<open>Properties of the trace\<close>

text \<open>
  The browser sessions in a trace: none is started while another is open, none is quit
  that was not started, and none is open at the end. \<open>b\<close> says whether one is open.
\<close>

fun sessions_closed :: "bool \<Rightarrow> event list \<Rightarrow> bool" where
  "sessions_closed b [] = (\<not> b)"
| "sessions_closed b (DriverStarted # evs) = (\<not> b \<and> sessions_closed True evs)"
| "sessions_closed b (DriverQuit # evs) = (b \<and> sessions_closed False evs)"
| "sessions_closed b (_ # evs) = sessions_closed b evs"

text \<open>The URLs announced by line 146, in the order of the trace.\<close>

fun scraped_urls :: "event list \<Rightarrow> string list" where
  "scraped_urls [] = []"
| "scraped_urls (PrintScraping u # evs) = u # scraped_urls evs"
| "scraped_urls (_ # evs) = scraped_urls evs"

text \<open>The invariant of the URL order, per kind of configuration.\<close>

definition urls_in_order :: "config \<Rightarrow> bool" where
  "urls_in_order c =
     (case c of
        Running us s \<Rightarrow> scraped_urls (out s) @ us = urls
      | Finished s \<Rightarrow> scraped_urls (out s) = urls
      | Stopped s \<Rightarrow> prefix (scraped_urls (out s)) urls)"

text \<open>
  The events one call of \<^verbatim>\<open>scrape_foodcom_recipe\<close> or one save emits: sessions
  closed, no URL announced and no final message.
\<close>

definition quiet_events :: "event list \<Rightarrow> bool" where
  "quiet_events evs \<longleftrightarrow> sessions_closed False evs \<and> scraped_urls evs = [] \<and> PrintAllScraped \<notin> set evs"

section \<open>Lemmas: what one iteration appends\<close>

lemma sessions_closed_append:
  "sessions_closed b xs \<Longrightarrow> sessions_closed False ys \<Longrightarrow> sessions_closed b (xs @ ys)"
  by (induction b xs rule: sessions_closed.induct) auto

lemma scraped_urls_append [simp]: "scraped_urls (xs @ ys) = scraped_urls xs @ scraped_urls ys"
  by (induction xs rule: scraped_urls.induct) auto

lemma scrape_foodcom_recipe_io_quiet: "quiet_events (fst (scrape_foodcom_recipe_io u p))"
  by (auto simp: scrape_foodcom_recipe_io_def quiet_events_def split: page.split sum.split)

lemma quiet_events_append:
  "quiet_events xs \<Longrightarrow> quiet_events ys \<Longrightarrow> quiet_events (xs @ ys)"
  by (simp add: quiet_events_def sessions_closed_append)

lemma iteration_out:
  assumes "iteration u p s = Inl s' \<or> iteration u p s = Inr s'"
  shows "\<exists>evs. out s' = out s @ PrintScraping u # evs \<and> quiet_events evs"
proof -
  obtain evs r where io: "scrape_foodcom_recipe_io u p = (evs, r)" by fastforce
  have q: "quiet_events evs" using scrape_foodcom_recipe_io_quiet [of u p] by (simp add: io)
  have q2: "quiet_events [PrintRecipe d, PrintSaved ''rec.csv'']" for d
    by (simp add: quiet_events_def)
  show ?thesis
    using assms q quiet_events_append [OF q q2]
    by (auto simp: iteration_def io save_to_csv_io_def Let_def split: sum.splits option.splits)
qed

inductive_cases main_step_RunningE: "main_step (Running us s) c"
inductive_cases main_step_FinishedE [elim!]: "main_step (Finished s) c"
inductive_cases main_step_StoppedE [elim!]: "main_step (Stopped s) c"

lemma main_step_out:
  assumes "main_step c c'"
  shows "\<exists>evs. out (state_of c') = out (state_of c) @ evs \<and> sessions_closed False evs"
  using assms
proof cases
  case (next_url u p s s' us)
  then show ?thesis using iteration_out [of u p s s'] by (auto simp: state_of_def quiet_events_def)
next
  case (raised u p s s' us)
  then show ?thesis using iteration_out [of u p s s'] by (auto simp: state_of_def quiet_events_def)
qed (simp add: state_of_def)

lemma main_step_urls_in_order:
  assumes "main_step c c'" "urls_in_order c"
  shows "urls_in_order c'"
  using assms(1)
proof cases
  case (next_url u p s s' us)
  then show ?thesis using assms(2) iteration_out [of u p s s'] by (auto simp: urls_in_order_def quiet_events_def)
next
  case (raised u p s s' us)
  then obtain evs where "out s' = out s @ PrintScraping u # evs" "quiet_events evs"
    using iteration_out [of u p s s'] by blast
  then have o: "scraped_urls (out s') = scraped_urls (out s) @ [u]"
    by (simp add: quiet_events_def)
  have "scraped_urls (out s) @ u # us = urls"
    using assms(2) raised by (simp add: urls_in_order_def)
  then have "prefix (scraped_urls (out s')) urls"
    unfolding o prefix_def by (intro exI [of _ us]) simp
  then show ?thesis using raised by (simp add: urls_in_order_def)
next
  case (finish s)
  then show ?thesis using assms(2) by (simp add: urls_in_order_def)
qed

lemma main_step_all_scraped:
  assumes "main_step c c'" "PrintAllScraped \<in> set (out (state_of c)) \<longleftrightarrow> (\<exists>s. c = Finished s)"
  shows "PrintAllScraped \<in> set (out (state_of c')) \<longleftrightarrow> (\<exists>s. c' = Finished s)"
  using assms(1)
proof cases
  case (next_url u p s s' us)
  then show ?thesis using assms(2) iteration_out [of u p s s'] by (auto simp: state_of_def quiet_events_def)
next
  case (raised u p s s' us)
  then show ?thesis using assms(2) iteration_out [of u p s s'] by (auto simp: state_of_def quiet_events_def)
qed (simp add: state_of_def)

lemma main_loop_run:
  "main_step\<^sup>*\<^sup>* (Running us s) (main_loop fetch us s) \<and> final (main_loop fetch us s)"
proof (induction us arbitrary: s)
  case Nil
  have "main_step (Running [] s) (main_loop fetch [] s)" by (simp add: main_step.finish)
  then show ?case by (simp add: final_def)
next
  case (Cons u us)
  show ?case
  proof (cases "iteration u (fetch u) s")
    case (Inl s')
    then have "main_step (Running (u # us) s) (Stopped s')" by (rule main_step.raised)
    then show ?thesis using Inl by (simp add: final_def)
  next
    case (Inr s')
    then have "main_step (Running (u # us) s) (Running us s')" by (rule main_step.next_url)
    then show ?thesis using Inr Cons.IH [of s'] by (auto intro: converse_rtranclp_into_rtranclp)
  qed
qed

section \<open>Lemmas: runs of the loop\<close>

lemma main_loop_reachable: "main_step\<^sup>*\<^sup>* (init_config None) (main_loop fetch urls \<lparr>csv = None, out = []\<rparr>)"
  using main_loop_run by (simp add: init_config_def)

lemma main_step_no_json:
  "main_step (Running (u # us) s)
     (Running us (s\<lparr>out := out s @ [PrintScraping u, DriverStarted, Slept 3, PrintJsonNotFound u, DriverQuit]\<rparr>))"
  by (rule main_step.next_url [where p = NoLdJson]) (simp add: iteration_def scrape_foodcom_recipe_io_def)

section \<open>Properties of the main loop\<close>

text \<open>
  C26. Every browser session is closed before the next one starts, and none is open in any configuration the loop reaches, whatever the pages do: the \<^verbatim>\<open>finally\<close> of line 129 quits the driver on every path that started it.
\<close>

theorem main_sessions_closed:
  "main_step\<^sup>*\<^sup>* (init_config f) c \<Longrightarrow> sessions_closed False (out (state_of c))"
proof (induction rule: rtranclp_induct)
  case base
  then show ?case by (simp add: init_config_def state_of_def)
next
  case (step c c')
  then show ?case using main_step_out [OF step(2)] by (auto intro: sessions_closed_append)
qed

theorem main_sessions_closed_witness:
  "sessions_closed False (out (state_of (main_loop (\<lambda>_. LoadFailure WebDriverException) urls \<lparr>csv = None, out = []\<rparr>)))"
  by (rule main_sessions_closed [OF main_loop_reachable])

text \<open>
  C27. The URLs are scraped once each, in the order of the list: the URLs announced so far followed by those still to do are the list, all of it once the loop has finished, a prefix of it when an exception stopped it.
\<close>

theorem main_urls_in_order:
  "main_step\<^sup>*\<^sup>* (init_config f) c \<Longrightarrow> urls_in_order c"
proof (induction rule: rtranclp_induct)
  case base
  then show ?case by (simp add: init_config_def urls_in_order_def)
next
  case (step c c')
  from step.hyps(2) step.IH show ?case by (rule main_step_urls_in_order)
qed

theorem main_urls_in_order_witness:
  "urls_in_order (main_loop (\<lambda>_. NoLdJson) urls \<lparr>csv = None, out = []\<rparr>)"
  by (rule main_urls_in_order [OF main_loop_reachable])

text \<open>
  C28. The final message of line 156 appears exactly when the loop ran to its end; it does so even when every page failed, and it is missing after an exception left the loop.
\<close>

theorem main_all_scraped_message:
  "main_step\<^sup>*\<^sup>* (init_config f) c \<Longrightarrow>
   PrintAllScraped \<in> set (out (state_of c)) \<longleftrightarrow> (\<exists>s. c = Finished s)"
proof (induction rule: rtranclp_induct)
  case base
  then show ?case by (simp add: init_config_def state_of_def)
next
  case (step c c')
  from step.hyps(2) step.IH show ?case by (rule main_step_all_scraped)
qed

theorem main_all_scraped_message_witness:
  "PrintAllScraped \<in> set (out (state_of (main_loop (\<lambda>_. NoLdJson) urls \<lparr>csv = None, out = []\<rparr>)))"
proof -
  have "main_loop (\<lambda>_. NoLdJson) urls \<lparr>csv = None, out = []\<rparr> =
          Finished (state_of (main_loop (\<lambda>_. NoLdJson) urls \<lparr>csv = None, out = []\<rparr>))"
    by (simp add: urls_def iteration_def scrape_foodcom_recipe_io_def state_of_def)
  then show ?thesis using main_all_scraped_message [OF main_loop_reachable, of "\<lambda>_. NoLdJson"] by blast
qed

end
