(* ===== verification/CsvText.thy ===== *)
theory CsvText
  imports Scraper
begin

text \<open>
  The text of \<^verbatim>\<open>rec.csv\<close>. \<^verbatim>\<open>save_to_csv\<close> (\<^verbatim>\<open>main.py\<close> lines 136--139) builds a
  one-row \<^verbatim>\<open>DataFrame\<close> from the dict of lines 117--122 and appends it with
  \<^verbatim>\<open>to_csv(mode="a", index=False, header=...)\<close>: the column names in the dict's
  order when the file is new, then the row's four cells, each line written by Python's
  \<^verbatim>\<open>csv.writer\<close> in its default dialect (separator \<^verbatim>\<open>,\<close>, quote \<^verbatim>\<open>"\<close> doubled
  inside a quoted field, \<^verbatim>\<open>QUOTE_MINIMAL\<close>) with pandas' line terminator
  \<^verbatim>\<open>\n\<close>. The cell of an object value is \<^verbatim>\<open>str\<close> of it, \<open>None\<close> and \<open>NaN\<close> the
  empty \<^verbatim>\<open>na_rep\<close>. A decoder for that dialect reads the text back.
\<close>

section \<open>The cells of a row\<close>

text \<open>The column names: the keys of the dict of lines 117--122, in order.\<close>

definition csv_columns :: "string list" where
  "csv_columns = [''Dish Name'', ''Ready In Time'', ''Ingredients'', ''Directions'']"

text \<open>The text pandas writes for the value of a cell.\<close>

definition csv_cell :: "json \<Rightarrow> string py" where
  "csv_cell v = (case v of JNull \<Rightarrow> Inr [] | JFloat NaN \<Rightarrow> Inr [] | _ \<Rightarrow> py_str v)"

text \<open>The cells of the row \<^verbatim>\<open>pd.DataFrame([data])\<close>, in column order.\<close>

definition row_cells :: "recipe_data \<Rightarrow> string list py" where
  "row_cells d =
     py_bind (csv_cell (dish_name d)) (\<lambda>n.
       Inr [n, ready_in_time d, ingredients_col d, directions_col d])"

definition csv_line_cells :: "csv_line \<Rightarrow> string list py" where
  "csv_line_cells l = (case l of CsvHeader \<Rightarrow> Inr csv_columns | CsvRow d \<Rightarrow> row_cells d)"

fun csv_lines_cells :: "csv_line list \<Rightarrow> string list list py" where
  "csv_lines_cells [] = Inr []"
| "csv_lines_cells (l # ls) =
     py_bind (csv_line_cells l) (\<lambda>r. py_bind (csv_lines_cells ls) (\<lambda>rs. Inr (r # rs)))"

section \<open>\<^verbatim>\<open>csv.writer\<close> with \<^verbatim>\<open>QUOTE_MINIMAL\<close>\<close>

text \<open>
  A field is quoted when it holds the separator, the quote, a line feed or a carriage
  return (CPython's writer quotes both, whatever the line terminator); inside the
  quotes a quote is doubled. A row whose only field is empty
  is written \<^verbatim>\<open>""\<close>, so that it is not read back as an empty line.
\<close>

definition csv_special :: "char \<Rightarrow> bool" where
  "csv_special c \<longleftrightarrow> c = CHR '','' \<or> c = CHR 0x22 \<or> c = CHR 0x0A \<or> c = CHR 0x0D"

definition csv_dq :: "char \<Rightarrow> string" where
  "csv_dq c = (if c = CHR 0x22 then [c, c] else [c])"

definition csv_quote :: "string \<Rightarrow> string" where
  "csv_quote s =
     (if list_ex csv_special s then CHR 0x22 # concat (map csv_dq s) @ [CHR 0x22] else s)"

definition csv_write_row :: "string list \<Rightarrow> string" where
  "csv_write_row r =
     (if r = [[]] then [CHR 0x22, CHR 0x22] else join_with '','' (map csv_quote r)) @ newline"

definition csv_text :: "string list list \<Rightarrow> string" where
  "csv_text rs = concat (map csv_write_row rs)"

text \<open>
  The text of the file: nothing while it does not exist, else its lines one after the
  other, as successive appends leave them.
\<close>

definition csv_file_text :: "csv_file \<Rightarrow> string py" where
  "csv_file_text f =
     (case f of None \<Rightarrow> Inr [] | Some ls \<Rightarrow> py_bind (csv_lines_cells ls) (\<lambda>rs. Inr (csv_text rs)))"

section \<open>A decoder for the dialect\<close>

text \<open>
  The states of the decoder, after \<^verbatim>\<open>csv.reader\<close> of a file opened with
  \<^verbatim>\<open>newline=''\<close>: at the start of a record, at the start of a later field, in an
  unquoted field, in a quoted field, just after a quote inside a quoted field, and just
  after a carriage return that ended a record. A line feed or a carriage return outside
  quotes ends the record, and a line feed right after such a carriage return belongs to
  the same line end; an empty line is the empty record.
\<close>

datatype csv_rstate = RStart | RField | RPlain | RQuoted | RQuote | RCR

definition csv_eol :: "char \<Rightarrow> bool" where
  "csv_eol c \<longleftrightarrow> c = CHR 0x0A \<or> c = CHR 0x0D"

definition csv_after_eol :: "char \<Rightarrow> csv_rstate" where
  "csv_after_eol c = (if c = CHR 0x0D then RCR else RStart)"

function csv_read_from :: "csv_rstate \<Rightarrow> string \<Rightarrow> string list \<Rightarrow> string \<Rightarrow> string list list" where
  "csv_read_from st f fs [] = (if st = RStart \<or> st = RCR then [] else [fs @ [f]])"
| "csv_read_from st f fs (c # cs) =
     (case st of
        RQuoted \<Rightarrow>
          if c = CHR 0x22 then csv_read_from RQuote f fs cs
          else csv_read_from RQuoted (f @ [c]) fs cs
      | RQuote \<Rightarrow>
          if c = CHR 0x22 then csv_read_from RQuoted (f @ [c]) fs cs
          else if c = CHR '','' then csv_read_from RField [] (fs @ [f]) cs
          else if csv_eol c then (fs @ [f]) # csv_read_from (csv_after_eol c) [] [] cs
          else csv_read_from RPlain (f @ [c]) fs cs
      | RPlain \<Rightarrow>
          if c = CHR '','' then csv_read_from RField [] (fs @ [f]) cs
          else if csv_eol c then (fs @ [f]) # csv_read_from (csv_after_eol c) [] [] cs
          else csv_read_from RPlain (f @ [c]) fs cs
      | RCR \<Rightarrow>
          if c = CHR 0x0A then csv_read_from RStart [] [] cs
          else csv_read_from RStart [] [] (c # cs)
      | _ \<Rightarrow>
          if st = RStart \<and> csv_eol c then [] # csv_read_from (csv_after_eol c) [] [] cs
          else if c = CHR 0x22 then csv_read_from RQuoted [] fs cs
          else if c = CHR '','' then csv_read_from RField [] (fs @ [[]]) cs
          else if csv_eol c then (fs @ [[]]) # csv_read_from (csv_after_eol c) [] [] cs
          else csv_read_from RPlain [c] fs cs)"
  by pat_completeness auto
termination
  by (relation "measures [\<lambda>(_, _, _, s). length s, \<lambda>(st, _, _, _). if st = RCR then 1 else 0]")
     (auto simp: csv_after_eol_def)

definition csv_read :: "string \<Rightarrow> string list list" where
  "csv_read t = csv_read_from RStart [] [] t"

section \<open>Lemmas: decoding what the writer wrote\<close>

lemma csv_eol_iff [simp]: "csv_eol c \<longleftrightarrow> c = CHR 0x0A \<or> c = CHR 0x0D"
  by (simp add: csv_eol_def)

lemma csv_after_eol_simps [simp]: "csv_after_eol (CHR 0x0A) = RStart" "csv_after_eol (CHR 0x0D) = RCR"
  by (simp_all add: csv_after_eol_def)

lemma csv_quote_Nil [simp]: "csv_quote [] = []"
  by (simp add: csv_quote_def)

lemma csv_read_plain:
  "\<not> list_ex csv_special s \<Longrightarrow>
   csv_read_from RPlain f fs (s @ rest) = csv_read_from RPlain (f @ s) fs rest"
  by (induction s arbitrary: f) (simp_all add: csv_special_def)

lemma csv_read_quoted:
  "csv_read_from RQuoted f fs (concat (map csv_dq s) @ CHR 0x22 # rest) =
   csv_read_from RQuote (f @ s) fs rest"
  by (induction s arbitrary: f) (simp_all add: csv_dq_def)

lemma csv_read_field:
  assumes "d = CHR '','' \<or> d = CHR 0x0A"
  shows "csv_read_from RField [] fs (csv_quote s @ d # rest) = csv_read_from RPlain s fs (d # rest)"
proof (cases "list_ex csv_special s")
  case True
  then show ?thesis using assms by (auto simp: csv_quote_def csv_read_quoted)
next
  case False
  then show ?thesis
  proof (cases s)
    case Nil
    then show ?thesis using assms by auto
  next
    case (Cons c cs)
    then have "\<not> list_ex csv_special cs" "\<not> csv_special c" using False by simp_all
    then show ?thesis using Cons assms
      by (auto simp: csv_quote_def csv_read_plain csv_special_def)
  qed
qed

lemma csv_read_fields:
  "ss \<noteq> [] \<Longrightarrow>
   csv_read_from RField [] fs (join_with '','' (map csv_quote ss) @ CHR 0x0A # rest) =
   (fs @ ss) # csv_read_from RStart [] [] rest"
proof (induction ss arbitrary: fs)
  case Nil
  then show ?case by simp
next
  case (Cons s ss)
  show ?case
  proof (cases ss)
    case Nil
    then show ?thesis using csv_read_field [of "CHR 0x0A" fs s rest] by simp
  next
    case (Cons s' ss')
    have "join_with '','' (map csv_quote (s # ss)) @ CHR 0x0A # rest =
          csv_quote s @ CHR '','' # (join_with '','' (map csv_quote ss) @ CHR 0x0A # rest)"
      using Cons by simp
    then show ?thesis
      using csv_read_field [of "CHR '',''" fs s] Cons.IH [of "fs @ [s]"] Cons by simp
  qed
qed

lemma csv_quote_hd:
  assumes "s \<noteq> []" shows "\<exists>c cs. csv_quote s @ rest = c # cs \<and> \<not> csv_eol c"
proof (cases "list_ex csv_special s")
  case True
  then show ?thesis by (simp add: csv_quote_def)
next
  case False
  then show ?thesis using assms by (cases s) (auto simp: csv_quote_def csv_special_def)
qed

lemma csv_read_row:
  "csv_read_from RStart [] [] (csv_write_row r @ rest) = r # csv_read_from RStart [] [] rest"
proof (cases "r = [] \<or> r = [[]]")
  case True
  then show ?thesis by (auto simp: csv_write_row_def newline_def)
next
  case False
  then obtain s ss where r: "r = s # ss" and ne: "s \<noteq> [] \<or> ss \<noteq> []" by (cases r) auto
  have "\<exists>c cs. join_with '','' (map csv_quote r) @ CHR 0x0A # rest = c # cs \<and> \<not> csv_eol c"
  proof (cases "s = []")
    case True
    then obtain s' ss' where "ss = s' # ss'" using ne by (cases ss) auto
    then show ?thesis using True r by simp
  next
    case False
    then obtain c cs where "csv_quote s @ (if ss = [] then [] else CHR '','' # join_with '','' (map csv_quote ss)) @ CHR 0x0A # rest = c # cs"
      and "\<not> csv_eol c" using csv_quote_hd by blast
    then show ?thesis using r by (cases ss) auto
  qed
  then obtain c cs where cs: "join_with '','' (map csv_quote r) @ CHR 0x0A # rest = c # cs"
    and c: "\<not> csv_eol c" by blast
  have "csv_read_from RStart [] [] (c # cs) = csv_read_from RField [] [] (c # cs)"
    using c by simp
  then show ?thesis
    using csv_read_fields [of r "[]" rest] cs False by (simp add: csv_write_row_def newline_def)
qed

lemma csv_read_text: "csv_read (csv_text rs @ rest) = rs @ csv_read rest"
  by (induction rs) (simp_all add: csv_text_def csv_read_def csv_read_row)

section \<open>Lemmas: the text of the file\<close>

lemma csv_lines_cells_append:
  "csv_lines_cells (xs @ ys) =
   py_bind (csv_lines_cells xs) (\<lambda>a. py_bind (csv_lines_cells ys) (\<lambda>b. Inr (a @ b)))"
  by (induction xs) (auto simp: py_bind_def split: sum.split)

lemma csv_lines_cells_rows:
  "csv_lines_cells (map CsvRow ds) = Inr rs \<longleftrightarrow> list_all2 (\<lambda>d r. row_cells d = Inr r) ds rs"
proof (induction ds arbitrary: rs)
  case Nil
  then show ?case by auto
next
  case (Cons d ds)
  then show ?case
    by (auto simp: csv_line_cells_def py_bind_def Cons.IH [symmetric] list_all2_Cons1 split: sum.split)
qed

lemma row_cells_Inr:
  "row_cells d = Inr r \<longleftrightarrow>
   (\<exists>n. csv_cell (dish_name d) = Inr n \<and> r = [n, ready_in_time d, ingredients_col d, directions_col d])"
  by (auto simp: row_cells_def py_bind_def split: sum.split)

lemma csv_text_append [simp]: "csv_text (xs @ ys) = csv_text xs @ csv_text ys"
  by (simp add: csv_text_def)

text \<open>
  C32. What the CSV writer writes, the decoder of its dialect reads back: the lines of
  the file are recovered field by field, whatever separators, quotes, line feeds or
  carriage returns the fields contain, read as \<^verbatim>\<open>csv.reader\<close> reads a file opened with
  \<^verbatim>\<open>newline=''\<close> (a line feed or carriage return outside quotes ends a record).
\<close>

theorem csv_roundtrip: "csv_read (csv_text rs) = rs"
  using csv_read_text [of rs "[]"] by (simp add: csv_read_def)

text \<open>
  C33. After the main loop, started with no \<^verbatim>\<open>rec.csv\<close> and with every browser
  starting, the file reads back as the header line of the column names followed, for
  each page that produced a recipe and in the order of the pages, by the recipe's four
  cells in column order; with no recipe there is no file.
\<close>

theorem csv_after_main_loop:
  assumes "DriverStartFailure \<notin> set ps" and "csv_file_text (fst (scrape_all ps None)) = Inr t"
  shows "\<exists>rs. csv_read t = (if concat (map page_row ps) = [] then [] else csv_columns # rs) \<and>
           list_all2 (\<lambda>d r. \<exists>n. csv_cell (dish_name d) = Inr n \<and>
                                 r = [n, ready_in_time d, ingredients_col d, directions_col d])
             (concat (map page_row ps)) rs"
proof -
  define ds where "ds = concat (map page_row ps)"
  have f: "fst (scrape_all ps None) = csv_append None ds"
    using scrape_all_acc [of ps None "[]"] assms(1) by (simp add: csv_append_def ds_def)
  show ?thesis
  proof (cases "ds = []")
    case True
    have "t = []" using assms(2) f True by (simp add: csv_append_def csv_file_text_def)
    then show ?thesis using True unfolding ds_def by (intro exI [of _ "[]"]) (simp add: csv_read_def)
  next
    case False
    then have "csv_file_text (Some (CsvHeader # map CsvRow ds)) = Inr t"
      using assms(2) f by (simp add: csv_append_def)
    then obtain rs where "csv_lines_cells (map CsvRow ds) = Inr rs" and t: "t = csv_text (csv_columns # rs)"
      by (auto simp: csv_file_text_def csv_line_cells_def py_bind_def split: sum.splits)
    then have "list_all2 (\<lambda>d r. row_cells d = Inr r) ds rs" by (simp add: csv_lines_cells_rows)
    moreover have "csv_read t = csv_columns # rs"
      using csv_read_text [of "csv_columns # rs" "[]"] t by (simp add: csv_read_def)
    ultimately show ?thesis using False by (auto simp: ds_def row_cells_Inr)
  qed
qed

theorem csv_after_main_loop_witness:
  "\<exists>t. csv_file_text (fst (scrape_all [LdJson (JObj [(''name'', JStr ''Palak, \"Paneer\"'')])] None)) = Inr t \<and>
       csv_read t = [csv_columns,
                     [''Palak, \"Paneer\"'', ''Not Available'', ''Ingredients not found'', ''Directions not found'']]"
proof -
  define P where "P = [LdJson (JObj [(''name'', JStr ''Palak, \"Paneer\"'')])]"
  define T where "T = csv_text [csv_columns,
                     [''Palak, \"Paneer\"'', ''Not Available'', ''Ingredients not found'', ''Directions not found'']]"
  have h: "csv_file_text (fst (scrape_all P None)) = Inr T" unfolding P_def T_def by code_simp
  have r: "concat (map page_row P) =
             [\<lparr>dish_name = JStr ''Palak, \"Paneer\"'', ready_in_time = ''Not Available'',
               ingredients_col = ''Ingredients not found'', directions_col = ''Directions not found''\<rparr>]"
    unfolding P_def by code_simp
  obtain rs where "csv_read T = (if concat (map page_row P) = [] then [] else csv_columns # rs)"
    and "list_all2 (\<lambda>d r. \<exists>n. csv_cell (dish_name d) = Inr n \<and>
                                 r = [n, ready_in_time d, ingredients_col d, directions_col d])
             (concat (map page_row P)) rs"
    using csv_after_main_loop [OF _ h] unfolding P_def by auto
  then have "csv_read T = [csv_columns,
                     [''Palak, \"Paneer\"'', ''Not Available'', ''Ingredients not found'', ''Directions not found'']]"
    using r by (auto simp: list_all2_Cons1 csv_cell_def)
  then show ?thesis using h unfolding P_def by blast
qed

text \<open>
  C34. \<^verbatim>\<open>save_to_csv\<close> appends to the text of the file the header line when the file
  does not exist yet, then the line of the row: what \<^verbatim>\<open>to_csv(mode="a",
  header=not file_exists(filename))\<close> writes.
\<close>

theorem save_to_csv_text:
  assumes "csv_file_text f = Inr t" and "row_cells d = Inr r"
  shows "csv_file_text (save_to_csv d f) =
           Inr (t @ (if f = None then csv_write_row csv_columns else []) @ csv_write_row r)"
  using assms
  by (auto simp: csv_file_text_def save_to_csv_def csv_lines_cells_append csv_line_cells_def
                 csv_text_def py_bind_def split: option.splits sum.splits)

theorem save_to_csv_text_witness:
  "csv_file_text (save_to_csv \<lparr>dish_name = JNull, ready_in_time = ''45 minutes'',
                               ingredients_col = ''1 cup \"rice\"'', directions_col = ''Boil, then rest''\<rparr> None) =
   Inr (csv_write_row csv_columns @ csv_write_row ['''', ''45 minutes'', ''1 cup \"rice\"'', ''Boil, then rest''])"
  using save_to_csv_text [of None "[]" "\<lparr>dish_name = JNull, ready_in_time = ''45 minutes'',
                               ingredients_col = ''1 cup \"rice\"'', directions_col = ''Boil, then rest''\<rparr>"
                          "['''', ''45 minutes'', ''1 cup \"rice\"'', ''Boil, then rest'']"]
  by (simp add: csv_file_text_def row_cells_def csv_cell_def py_bind_def)

end
