(* ===== verification/JsonDecode.thy ===== *)
theory JsonDecode
  imports Json
begin

text \<open>
  \<^verbatim>\<open>json.loads\<close> as \<^verbatim>\<open>scrape_foodcom_recipe\<close> calls it on the text of the JSON-LD
  script (\<^verbatim>\<open>main.py\<close> line 87): CPython 3.11's decoder with its defaults
  (\<^verbatim>\<open>strict=True\<close>, \<^verbatim>\<open>NaN\<close> and \<^verbatim>\<open>Infinity\<close> accepted, \<^verbatim>\<open>dict\<close> for objects).
  Its scanner is recursive descent over the text: \<^verbatim>\<open>scan_once\<close> for a value,
  \<^verbatim>\<open>scanstring\<close>, \<^verbatim>\<open>JSONArray\<close> and \<^verbatim>\<open>JSONObject\<close>, the number pattern
  \<^verbatim>\<open>(-?(?:0|[1-9]\d*))(\.\d+)?([eE][-+]?\d+)?\<close>, and \<^verbatim>\<open>decode\<close>, which skips
  whitespace around the value and refuses extra data. Every \<^verbatim>\<open>JSONDecodeError\<close> is a
  \<open>ValueError\<close>, as is the 4300-digit limit of \<^verbatim>\<open>int\<close>.

  Characters are Latin-1, as in the rest of the development. A \<^verbatim>\<open>\uXXXX\<close> escape
  beyond U+00FF decodes in Python to a character the model cannot hold: the scanner
  goes on (so that a later error is still found) and flags the result as wide, and
  \<open>json_loads\<close> then returns \<open>None\<close>, the one outcome outside the model. The
  recursion is bounded by fuel, and the fuel \<open>json_loads\<close> gives is proved never to
  run out. CPython's recursion limit (a \<open>RecursionError\<close> past about a thousand
  nested containers) is not modelled.
\<close>

section \<open>Outcomes of the scanner\<close>

text \<open>
  A scan yields the value, whether it holds a character beyond Latin-1, and the rest
  of the text; or a \<^verbatim>\<open>ValueError\<close>; or it runs out of fuel.
\<close>

datatype 'a scan = Scanned 'a bool string | ScanError | OutOfFuel

fun scan_map :: "('a \<Rightarrow> 'b) \<Rightarrow> 'a scan \<Rightarrow> 'b scan" where
  "scan_map f (Scanned a w r) = Scanned (f a) w r"
| "scan_map f ScanError = ScanError"
| "scan_map f OutOfFuel = OutOfFuel"

section \<open>Whitespace and strings\<close>

text \<open>The whitespace of \<^verbatim>\<open>WHITESPACE = r'[ \t\n\r]*'\<close>.\<close>

definition json_ws :: "char \<Rightarrow> bool" where
  "json_ws c \<longleftrightarrow> c = CHR '' '' \<or> c = CHR 0x09 \<or> c = CHR 0x0A \<or> c = CHR 0x0D"

definition skip_ws :: "string \<Rightarrow> string" where
  "skip_ws s = dropWhile json_ws s"

text \<open>The one-character escapes of \<^verbatim>\<open>BACKSLASH\<close>.\<close>

definition json_simple_escape :: "char \<Rightarrow> char option" where
  "json_simple_escape e =
     (if e = CHR 0x22 \<or> e = CHR 0x5C \<or> e = CHR ''/'' then Some e
      else if e = CHR ''b'' then Some (CHR 0x08)
      else if e = CHR ''f'' then Some (CHR 0x0C)
      else if e = CHR ''n'' then Some (CHR 0x0A)
      else if e = CHR ''r'' then Some (CHR 0x0D)
      else if e = CHR ''t'' then Some (CHR 0x09)
      else None)"

definition hex_value :: "char \<Rightarrow> int option" where
  "hex_value c =
     (let n = (of_char c :: int)
      in if 48 \<le> n \<and> n \<le> 57 then Some (n - 48)
         else if 97 \<le> n \<and> n \<le> 102 then Some (n - 87)
         else if 65 \<le> n \<and> n \<le> 70 then Some (n - 55)
         else None)"

fun hex_digits :: "int \<Rightarrow> string \<Rightarrow> int option" where
  "hex_digits a [] = Some a"
| "hex_digits a (c # cs) = (case hex_value c of None \<Rightarrow> None | Some d \<Rightarrow> hex_digits (16 * a + d) cs)"

text \<open>
  \<^verbatim>\<open>scanstring\<close> after the opening quote, with \<^verbatim>\<open>strict=True\<close>: a control
  character raises, an unknown escape or a \<^verbatim>\<open>\u\<close> without four hex digits raises,
  the text ending before the closing quote raises. A code point beyond U+00FF (a
  surrogate pair included) sets the wide flag.
\<close>

function json_scanstring :: "string \<Rightarrow> bool \<Rightarrow> string \<Rightarrow> string scan" where
  "json_scanstring acc w [] = ScanError"
| "json_scanstring acc w (c # cs) =
     (if c = CHR 0x22 then Scanned acc w cs
      else if c = CHR 0x5C then
        (case cs of
           [] \<Rightarrow> ScanError
         | e # r \<Rightarrow>
             if e = CHR ''u'' then
               (if length r < 4 then ScanError
                else case hex_digits 0 (take 4 r) of
                       None \<Rightarrow> ScanError
                     | Some n \<Rightarrow>
                         if n < 256 then json_scanstring (acc @ [char_of n]) w (drop 4 r)
                         else json_scanstring (acc @ [CHR ''?'']) True (drop 4 r))
             else (case json_simple_escape e of
                     None \<Rightarrow> ScanError
                   | Some x \<Rightarrow> json_scanstring (acc @ [x]) w r))
      else if (of_char c :: nat) < 32 then ScanError
      else json_scanstring (acc @ [c]) w cs)"
  by pat_completeness auto
termination
  by (relation "measure (\<lambda>(_, _, s). length s)") auto

section \<open>Numbers\<close>

text \<open>The digits at the front of a text, and the text after them.\<close>

definition digit_run :: "string \<Rightarrow> string \<times> string" where
  "digit_run s = (takeWhile is_digit s, dropWhile is_digit s)"

text \<open>
  \<^verbatim>\<open>-?(?:0|[1-9]\d*)\<close>: the optional sign and the integer digits, or \<open>None\<close> when no
  number starts here.
\<close>

definition number_int_part :: "string \<Rightarrow> (bool \<times> string \<times> string) option" where
  "number_int_part s =
     (let (neg, s1) = (if s \<noteq> [] \<and> hd s = CHR ''-'' then (True, tl s) else (False, s))
      in case s1 of
           [] \<Rightarrow> None
         | c # r \<Rightarrow>
             if c = CHR ''0'' then Some (neg, ''0'', r)
             else if is_digit c then Some (neg, c # fst (digit_run r), snd (digit_run r))
             else None)"

text \<open>\<^verbatim>\<open>(\.\d+)?\<close>: the fraction digits, empty when there is no fraction.\<close>

definition number_frac_part :: "string \<Rightarrow> string \<times> string" where
  "number_frac_part s =
     (case s of
        c # d # r \<Rightarrow> if c = CHR ''.'' \<and> is_digit d then (d # fst (digit_run r), snd (digit_run r)) else ([], s)
      | _ \<Rightarrow> ([], s))"

text \<open>\<^verbatim>\<open>([eE][-+]?\d+)?\<close>: the signed exponent, when there is one.\<close>

definition number_exp_part :: "string \<Rightarrow> (int \<times> string) option" where
  "number_exp_part s =
     (case s of
        e # r \<Rightarrow>
          if e = CHR ''e'' \<or> e = CHR ''E'' then
            (let (neg, r1) = (if r \<noteq> [] \<and> (hd r = CHR ''-'' \<or> hd r = CHR ''+'')
                              then (hd r = CHR ''-'', tl r) else (False, r));
                 (ds, r2) = digit_run r1
             in if ds = [] then None
                else Some ((if neg then - int_of_digits ds else int_of_digits ds), r2))
          else None
      | [] \<Rightarrow> None)"

text \<open>
  A number: \<^verbatim>\<open>int(integer)\<close> when it has neither fraction nor exponent (raising past
  4300 digits), else \<^verbatim>\<open>float(integer + frac + exp)\<close>, the correctly rounded double of
  its exact value, an infinity when that overflows.
\<close>

definition json_number :: "string \<Rightarrow> (json \<times> string) py option" where
  "json_number s =
     (case number_int_part s of
        None \<Rightarrow> None
      | Some (neg, ids, r) \<Rightarrow>
          (let (fds, r1) = number_frac_part r
           in case number_exp_part r1 of
                None \<Rightarrow>
                  if fds = [] then
                    Some (py_bind (py_int_of_digits ids) (\<lambda>i. Inr (JInt (if neg then - i else i), r1)))
                  else
                    Some (Inr (JFloat (f64_of_rat ((if neg then -1 else 1) *
                        of_int (int_of_digits (ids @ fds)) * pow10 (- int (length fds)))), r1))
              | Some (ex, r2) \<Rightarrow>
                  Some (Inr (JFloat (f64_of_rat ((if neg then -1 else 1) *
                        of_int (int_of_digits (ids @ fds)) * pow10 (ex - int (length fds)))), r2))))"

section \<open>Values, arrays and objects\<close>

text \<open>
  The rest of \<^verbatim>\<open>scan_once\<close>: the literals, the named constants and numbers, tried
  in the order of the C scanner (the patterns are disjoint).
\<close>

definition json_atom :: "string \<Rightarrow> json scan" where
  "json_atom s =
     (if take 4 s = ''null'' then Scanned JNull False (drop 4 s)
      else if take 4 s = ''true'' then Scanned (JBool True) False (drop 4 s)
      else if take 5 s = ''false'' then Scanned (JBool False) False (drop 5 s)
      else if take 3 s = ''NaN'' then Scanned (JFloat NaN) False (drop 3 s)
      else if take 8 s = ''Infinity'' then Scanned (JFloat PosInf) False (drop 8 s)
      else if take 9 s = ''-Infinity'' then Scanned (JFloat NegInf) False (drop 9 s)
      else (case json_number s of
              None \<Rightarrow> ScanError
            | Some (Inl e) \<Rightarrow> ScanError
            | Some (Inr (v, r)) \<Rightarrow> Scanned v False r))"


text \<open>
  \<^verbatim>\<open>dict(pairs)\<close>: a repeated key keeps its first position and takes the last value.
\<close>

fun dict_set :: "(string \<times> json) list \<Rightarrow> string \<Rightarrow> json \<Rightarrow> (string \<times> json) list" where
  "dict_set [] k v = [(k, v)]"
| "dict_set ((k', v') # kvs) k v = (if k' = k then (k, v) # kvs else (k', v') # dict_set kvs k v)"

text \<open>
  \<^verbatim>\<open>scan_once\<close> at a value, \<^verbatim>\<open>JSONArray\<close> from its first element on and
  \<^verbatim>\<open>JSONObject\<close> from after the opening quote of a key, each call taking one unit
  of fuel.
\<close>

fun json_value :: "nat \<Rightarrow> string \<Rightarrow> json scan"
  and json_elems :: "nat \<Rightarrow> string \<Rightarrow> json list \<Rightarrow> bool \<Rightarrow> json list scan"
  and json_members :: "nat \<Rightarrow> string \<Rightarrow> (string \<times> json) list \<Rightarrow> bool \<Rightarrow> (string \<times> json) list scan" where
  "json_value 0 s = OutOfFuel"
| "json_value (Suc n) s =
     (case s of
        [] \<Rightarrow> ScanError
      | c # cs \<Rightarrow>
          if c = CHR 0x22 then scan_map JStr (json_scanstring [] False cs)
          else if c = CHR ''{'' then
            (let r = skip_ws cs
             in if r \<noteq> [] \<and> hd r = CHR ''}'' then Scanned (JObj []) False (tl r)
                else if r \<noteq> [] \<and> hd r = CHR 0x22 then scan_map JObj (json_members n (tl r) [] False)
                else ScanError)
          else if c = CHR ''['' then
            (let r = skip_ws cs
             in if r \<noteq> [] \<and> hd r = CHR '']'' then Scanned (JArr []) False (tl r)
                else scan_map JArr (json_elems n r [] False))
          else json_atom s)"
| "json_elems 0 s acc w = OutOfFuel"
| "json_elems (Suc n) s acc w =
     (case json_value n s of
        Scanned v w' r \<Rightarrow>
          (let r1 = skip_ws r
           in if r1 \<noteq> [] \<and> hd r1 = CHR '']'' then Scanned (acc @ [v]) (w \<or> w') (tl r1)
              else if r1 \<noteq> [] \<and> hd r1 = CHR '','' then json_elems n (skip_ws (tl r1)) (acc @ [v]) (w \<or> w')
              else ScanError)
      | ScanError \<Rightarrow> ScanError
      | OutOfFuel \<Rightarrow> OutOfFuel)"
| "json_members 0 s acc w = OutOfFuel"
| "json_members (Suc n) s acc w =
     (case json_scanstring [] False s of
        Scanned k wk r \<Rightarrow>
          (let r1 = skip_ws r
           in if r1 \<noteq> [] \<and> hd r1 = CHR '':'' then
                (case json_value n (skip_ws (tl r1)) of
                   Scanned v wv r2 \<Rightarrow>
                     (let r3 = skip_ws r2; acc' = dict_set acc k v; w' = (w \<or> wk \<or> wv)
                      in if r3 \<noteq> [] \<and> hd r3 = CHR ''}'' then Scanned acc' w' (tl r3)
                         else if r3 \<noteq> [] \<and> hd r3 = CHR '','' then
                           (let r4 = skip_ws (tl r3)
                            in if r4 \<noteq> [] \<and> hd r4 = CHR 0x22 then json_members n (tl r4) acc' w'
                               else ScanError)
                         else ScanError)
                 | ScanError \<Rightarrow> ScanError
                 | OutOfFuel \<Rightarrow> OutOfFuel)
              else ScanError)
      | ScanError \<Rightarrow> ScanError
      | OutOfFuel \<Rightarrow> OutOfFuel)"

text \<open>
  \<^verbatim>\<open>json.loads(s)\<close>: the value after leading whitespace, then only whitespace. The
  fuel is twice the length of the text and one, which is enough (lemma
  \<open>json_value_fuel\<close>); \<open>None\<close> is a value with a character beyond Latin-1.
\<close>

definition json_loads :: "string \<Rightarrow> json py option" where
  "json_loads s =
     (case json_value (Suc (2 * length s)) (skip_ws s) of
        Scanned v w r \<Rightarrow>
          if skip_ws r \<noteq> [] then Some (Inl ValueError)
          else if w then None
          else Some (Inr v)
      | ScanError \<Rightarrow> Some (Inl ValueError)
      | OutOfFuel \<Rightarrow> None)"

section \<open>\<^verbatim>\<open>json.dumps\<close>, the reference encoder\<close>

text \<open>
  \<^verbatim>\<open>json.dumps(v)\<close> with its defaults (\<^verbatim>\<open>ensure_ascii=True\<close>, separators
  \<^verbatim>\<open>', '\<close> and \<^verbatim>\<open>': '\<close>, \<^verbatim>\<open>allow_nan=True\<close>): the program does not call it;
  it states what \<open>json_loads\<close> inverts. A character is escaped as
  \<^verbatim>\<open>ESCAPE_DCT\<close> says, printable ASCII is kept and everything else becomes
  \<^verbatim>\<open>\u00XX\<close> in lower-case hex.
\<close>

definition json_escape_char :: "char \<Rightarrow> string" where
  "json_escape_char c =
     (let n = (of_char c :: int); bs = CHR 0x5C
      in if c = bs \<or> c = CHR 0x22 then [bs, c]
         else if n = 8 then [bs, CHR ''b'']
         else if n = 12 then [bs, CHR ''f'']
         else if n = 10 then [bs, CHR ''n'']
         else if n = 13 then [bs, CHR ''r'']
         else if n = 9 then [bs, CHR ''t'']
         else if 32 \<le> n \<and> n \<le> 126 then [c]
         else [bs, CHR ''u'', CHR ''0'', CHR ''0'', hex_digit (n div 16), hex_digit (n mod 16)])"

definition json_dumps_str :: "string \<Rightarrow> string" where
  "json_dumps_str s = CHR 0x22 # concat (map json_escape_char s) @ [CHR 0x22]"

fun json_dumps :: "json \<Rightarrow> string py"
  and json_dumps_elems :: "json list \<Rightarrow> string list py"
  and json_dumps_items :: "(string \<times> json) list \<Rightarrow> string list py" where
  "json_dumps JNull = Inr ''null''"
| "json_dumps (JBool b) = Inr (if b then ''true'' else ''false'')"
| "json_dumps (JInt i) = py_str_int i"
| "json_dumps (JFloat f) =
     Inr (case f of NaN \<Rightarrow> ''NaN'' | PosInf \<Rightarrow> ''Infinity'' | NegInf \<Rightarrow> ''-Infinity''
                  | Fin _ \<Rightarrow> py_float_repr f)"
| "json_dumps (JStr s) = Inr (json_dumps_str s)"
| "json_dumps (JArr xs) = map_sum id (\<lambda>es. ''['' @ join_with '', '' es @ '']'') (json_dumps_elems xs)"
| "json_dumps (JObj kvs) = map_sum id (\<lambda>es. ''{'' @ join_with '', '' es @ ''}'') (json_dumps_items kvs)"
| "json_dumps_elems [] = Inr []"
| "json_dumps_elems (x # xs) = py_bind (json_dumps x) (\<lambda>e. map_sum id (Cons e) (json_dumps_elems xs))"
| "json_dumps_items [] = Inr []"
| "json_dumps_items ((k, v) # kvs) =
     py_bind (json_dumps v) (\<lambda>e. map_sum id (Cons (json_dumps_str k @ '': '' @ e)) (json_dumps_items kvs))"

text \<open>
  The values the round trip covers: dict keys distinct (as in every dict) and no
  finite float, whose \<^verbatim>\<open>repr\<close> the round trip would need to invert.
\<close>

fun json_wf :: "json \<Rightarrow> bool"
  and json_wf_elems :: "json list \<Rightarrow> bool"
  and json_wf_items :: "(string \<times> json) list \<Rightarrow> bool" where
  "json_wf (JFloat (Fin _)) = False"
| "json_wf (JArr xs) = json_wf_elems xs"
| "json_wf (JObj kvs) = (distinct (map fst kvs) \<and> json_wf_items kvs)"
| "json_wf _ = True"
| "json_wf_elems [] = True"
| "json_wf_elems (x # xs) = (json_wf x \<and> json_wf_elems xs)"
| "json_wf_items [] = True"
| "json_wf_items ((k, v) # kvs) = (json_wf v \<and> json_wf_items kvs)"

text \<open>What may follow a value that \<^verbatim>\<open>json.dumps\<close> wrote: nothing, or a separator.\<close>

definition json_end :: "string \<Rightarrow> bool" where
  "json_end r \<longleftrightarrow> r = [] \<or> hd r = CHR '','' \<or> hd r = CHR '']'' \<or> hd r = CHR ''}''"

section \<open>Lemmas: the scanner consumes its input\<close>

lemma skip_ws_length: "length (skip_ws s) \<le> length s"
  by (simp add: skip_ws_def length_dropWhile_le)

lemma json_scanstring_consumes:
  "json_scanstring acc w s = Scanned x w' r \<Longrightarrow> length r < length s"
proof (induction acc w s arbitrary: x w' rule: json_scanstring.induct)
  case (1 acc w)
  then show ?case by simp
next
  case (2 acc w c cs)
  show ?case
  proof (cases "c = CHR 0x22 \<or> c = CHR 0x5C")
    case False
    have nc: "\<not> (of_char c :: nat) < 32" using "2.prems" False by (auto split: if_splits)
    then have "json_scanstring (acc @ [c]) w cs = Scanned x w' r" using "2.prems" False by simp
    then show ?thesis using "2.IH"(4) [of x w'] False nc by simp
  next
    case True
    show ?thesis
    proof (cases "c = CHR 0x22")
      case True
      then show ?thesis using "2.prems" by simp
    next
      case nq: False
      with True have bs: "c = CHR 0x5C" by simp
      then obtain e t where cs: "cs = e # t" using "2.prems" nq by (cases cs) simp_all
      show ?thesis
      proof (cases "e = CHR ''u''")
        case u: True
        then have t4: "\<not> length t < 4" using "2.prems" nq bs cs by (auto split: if_splits)
        then obtain n where h: "hex_digits 0 (take 4 t) = Some n"
          using "2.prems" nq bs cs u by (auto split: option.splits)
        show ?thesis
        proof (cases "n < 256")
          case True
          then have "json_scanstring (acc @ [char_of n]) w (drop 4 t) = Scanned x w' r"
            using "2.prems" nq bs cs u t4 h by simp
          then show ?thesis using "2.IH"(1) [OF nq bs cs u t4 h True] cs by fastforce
        next
          case False
          then have "json_scanstring (acc @ [CHR ''?'']) True (drop 4 t) = Scanned x w' r"
            using "2.prems" nq bs cs u t4 h by simp
          then show ?thesis using "2.IH"(2) [OF nq bs cs u t4 h False] cs by fastforce
        qed
      next
        case nu: False
        then obtain y where h: "json_simple_escape e = Some y"
          using "2.prems" nq bs cs by (auto split: option.splits)
        then have "json_scanstring (acc @ [y]) w t = Scanned x w' r"
          using "2.prems" nq bs cs nu by simp
        then show ?thesis using "2.IH"(3) [OF nq bs cs nu h] cs by fastforce
      qed
    qed
  qed
qed

lemma digit_run_length: "length (snd (digit_run s)) \<le> length s"
  by (simp add: digit_run_def length_dropWhile_le)

lemma number_int_part_consumes:
  assumes "number_int_part s = Some (neg, ids, r)"
  shows "length r < length s"
proof -
  define s1 where "s1 = (if s \<noteq> [] \<and> hd s = CHR ''-'' then tl s else s)"
  have l: "length s1 \<le> length s" by (simp add: s1_def)
  obtain c t where "s1 = c # t" and "r = t \<or> r = snd (digit_run t)"
    using assms unfolding number_int_part_def s1_def [symmetric]
    by (cases "s \<noteq> [] \<and> hd s = CHR ''-''")
       (auto simp: s1_def split: list.splits if_splits)
  then show ?thesis using l digit_run_length [of t] by auto
qed

lemma number_frac_part_length: "length (snd (number_frac_part s)) \<le> length s"
  using digit_run_length by (auto simp: number_frac_part_def split: list.splits) (meson le_SucI)

lemma number_exp_part_consumes:
  assumes "number_exp_part s = Some (ex, r)"
  shows "length r < length s"
proof -
  obtain e t where s: "s = e # t" using assms by (cases s) (auto simp: number_exp_part_def)
  define t1 where "t1 = (if t \<noteq> [] \<and> (hd t = CHR ''-'' \<or> hd t = CHR ''+'') then tl t else t)"
  have "r = snd (digit_run t1)"
    using assms unfolding s
    by (cases "t \<noteq> [] \<and> (hd t = CHR ''-'' \<or> hd t = CHR ''+'')")
       (auto simp: number_exp_part_def t1_def split: if_splits prod.splits)
  moreover have "length t1 \<le> length t" by (simp add: t1_def)
  ultimately show ?thesis using s digit_run_length [of t1] by simp
qed

lemma json_number_consumes:
  assumes "json_number s = Some (Inr (v, r))"
  shows "length r < length s"
proof -
  obtain neg ids r0 where ip: "number_int_part s = Some (neg, ids, r0)"
    using assms by (auto simp: json_number_def split: option.splits)
  obtain fds r1 where fp: "number_frac_part r0 = (fds, r1)" by (cases "number_frac_part r0")
  have r1: "length r1 \<le> length r0" using number_frac_part_length [of r0] fp by simp
  have "r = r1 \<or> (\<exists>ex. number_exp_part r1 = Some (ex, r))"
    using assms ip fp
    by (auto simp: json_number_def py_bind_def split: option.splits sum.splits if_splits)
  then show ?thesis
  proof
    assume "r = r1"
    then show ?thesis using number_int_part_consumes [OF ip] r1 by simp
  next
    assume "\<exists>ex. number_exp_part r1 = Some (ex, r)"
    then obtain ex where "number_exp_part r1 = Some (ex, r)" ..
    then show ?thesis using number_exp_part_consumes [of r1 ex r] number_int_part_consumes [OF ip] r1 by simp
  qed
qed

lemma take_Cons_pos: "take k s = a # t \<Longrightarrow> 0 < k \<and> 0 < length s"
  by (cases s; cases k) auto

lemma json_atom_consumes: "json_atom s = Scanned v w r \<Longrightarrow> length r < length s"
  using json_number_consumes [of s v r]
  by (auto simp: json_atom_def split: if_splits option.splits sum.splits dest!: take_Cons_pos)

lemma scan_map_Scanned: "scan_map f x = Scanned v w r \<longleftrightarrow> (\<exists>a. x = Scanned a w r \<and> v = f a)"
  by (cases x) auto

lemma tl_skip_ws_less: "skip_ws s \<noteq> [] \<Longrightarrow> length (tl (skip_ws s)) < length s"
  using skip_ws_length [of s] by (cases "skip_ws s") auto

lemma json_elems_SucE:
  assumes "json_elems (Suc n) s acc w0 = Scanned vs w r"
  obtains v w' r' where "json_value n s = Scanned v w' r'"
    "skip_ws r' \<noteq> []" "r = tl (skip_ws r')"
  | v w' r' acc' w1 where "json_value n s = Scanned v w' r'"
    "skip_ws r' \<noteq> []" "json_elems n (skip_ws (tl (skip_ws r'))) acc' w1 = Scanned vs w r"
  using assms by (auto simp: Let_def split: scan.splits if_splits)

lemma json_members_SucE:
  assumes "json_members (Suc n) s kacc w0 = Scanned kvs w r"
  obtains k wk r' v wv r2 where "json_scanstring [] False s = Scanned k wk r'"
    "json_value n (skip_ws (tl (skip_ws r'))) = Scanned v wv r2"
    "skip_ws r2 \<noteq> []" "r = tl (skip_ws r2)"
  | k wk r' v wv r2 kacc' w1 where "json_scanstring [] False s = Scanned k wk r'"
    "json_value n (skip_ws (tl (skip_ws r'))) = Scanned v wv r2" "skip_ws r2 \<noteq> []"
    "skip_ws (tl (skip_ws r2)) \<noteq> []"
    "json_members n (tl (skip_ws (tl (skip_ws r2)))) kacc' w1 = Scanned kvs w r"
  using assms by (auto simp: Let_def split: scan.splits if_splits)

lemma json_value_SucE:
  assumes "json_value (Suc n) (c # cs) = Scanned v w r"
  obtains "c = CHR 0x22" "\<exists>a. json_scanstring [] False cs = Scanned a w r"
  | "skip_ws cs \<noteq> []" "r = tl (skip_ws cs)"
  | kvs where "skip_ws cs \<noteq> []" "json_members n (tl (skip_ws cs)) [] False = Scanned kvs w r"
  | vs where "json_elems n (skip_ws cs) [] False = Scanned vs w r"
  | "json_atom (c # cs) = Scanned v w r"
  using assms by (auto simp: Let_def scan_map_Scanned split: if_splits)

lemma json_scan_consumes_fuel:
  "(\<forall>s v w r. json_value n s = Scanned v w r \<longrightarrow> length r < length s) \<and>
   (\<forall>s acc w0 vs w r. json_elems n s acc w0 = Scanned vs w r \<longrightarrow> length r < length s) \<and>
   (\<forall>s kacc w0 kvs w r. json_members n s kacc w0 = Scanned kvs w r \<longrightarrow> length r < length s)"
proof (induction n)
  case 0
  then show ?case by simp
next
  case (Suc n)
  then have V: "\<And>s v w r. json_value n s = Scanned v w r \<Longrightarrow> length r < length s"
    and E: "\<And>s acc w0 vs w r. json_elems n s acc w0 = Scanned vs w r \<Longrightarrow> length r < length s"
    and M: "\<And>s kacc w0 kvs w r. json_members n s kacc w0 = Scanned kvs w r \<Longrightarrow> length r < length s"
    by blast+
  have "length r < length s" if h: "json_value (Suc n) s = Scanned v w r" for s v w r
  proof -
    obtain c cs where s: "s = c # cs" using h by (cases s) auto
    have l: "length (skip_ws cs) < length s" using skip_ws_length [of cs] s by simp
    from h [unfolded s] show ?thesis
    proof (cases rule: json_value_SucE)
      case 1
      then show ?thesis using s json_scanstring_consumes by fastforce
    next
      case 2
      then show ?thesis using l by simp
    next
      case (3 kvs)
      then show ?thesis using M [of "tl (skip_ws cs)"] l by fastforce
    next
      case (4 vs)
      then show ?thesis using E [of "skip_ws cs"] l by fastforce
    next
      case 5
      then show ?thesis using json_atom_consumes s by blast
    qed
  qed
  moreover have "length r < length s" if h: "json_elems (Suc n) s acc w0 = Scanned vs w r" for s acc w0 vs w r
    using h
  proof (cases rule: json_elems_SucE)
    case (1 v w' r')
    then show ?thesis using V [of s v w' r'] skip_ws_length [of r'] by (cases "skip_ws r'") auto
  next
    case (2 v w' r' acc' w1)
    have "length (skip_ws (tl (skip_ws r'))) < length s"
      using V [of s v w' r'] 2 skip_ws_length [of r'] skip_ws_length [of "tl (skip_ws r')"]
      by (cases "skip_ws r'") auto
    then show ?thesis using E 2(3) by fastforce
  qed
  moreover have "length r < length s" if h: "json_members (Suc n) s kacc w0 = Scanned kvs w r" for s kacc w0 kvs w r
    using h
  proof (cases rule: json_members_SucE)
    case (1 k wk r' v wv r2)
    have "length r2 < length s"
      using json_scanstring_consumes [OF 1(1)] V [OF 1(2)] skip_ws_length [of r'] skip_ws_length [of "tl (skip_ws r')"]
      by (cases "skip_ws r'") auto
    then show ?thesis using 1 skip_ws_length [of r2] by (cases "skip_ws r2") auto
  next
    case (2 k wk r' v wv r2 kacc' w1)
    have "length r2 < length s"
      using json_scanstring_consumes [OF 2(1)] V [OF 2(2)] skip_ws_length [of r'] skip_ws_length [of "tl (skip_ws r')"]
      by (cases "skip_ws r'") auto
    moreover have "length (tl (skip_ws (tl (skip_ws r2)))) < length r2"
      using 2(3,4) skip_ws_length [of r2] skip_ws_length [of "tl (skip_ws r2)"]
      by (cases "skip_ws r2"; cases "skip_ws (tl (skip_ws r2))") auto
    ultimately show ?thesis using M [OF 2(5)] by simp
  qed
  ultimately show ?case by blast
qed

lemma json_value_consumes: "json_value n s = Scanned v w r \<Longrightarrow> length r < length s"
  using json_scan_consumes_fuel by blast

section \<open>Lemmas: the fuel of \<open>json_loads\<close> is enough\<close>

lemma json_scanstring_fuel: "json_scanstring acc w s \<noteq> OutOfFuel"
  by (induction acc w s rule: json_scanstring.induct) (auto split: list.splits option.splits)

lemma json_atom_fuel: "json_atom s \<noteq> OutOfFuel"
  by (simp add: json_atom_def split: option.splits sum.splits)

lemma scan_map_OutOfFuel [simp]: "scan_map f x = OutOfFuel \<longleftrightarrow> x = OutOfFuel"
  by (cases x) auto

lemma json_value_Suc_OutOfFuel:
  assumes "json_value (Suc n) (c # cs) = OutOfFuel"
  shows "(skip_ws cs \<noteq> [] \<and> json_members n (tl (skip_ws cs)) [] False = OutOfFuel) \<or>
         json_elems n (skip_ws cs) [] False = OutOfFuel"
proof -
  show ?thesis
    using assms json_atom_fuel [of "c # cs"] json_scanstring_fuel [of "[]" False cs]
    by (auto simp: Let_def split: if_splits)
qed

lemma json_elems_Suc_OutOfFuel:
  assumes "json_elems (Suc n) s acc w0 = OutOfFuel"
  shows "json_value n s = OutOfFuel \<or>
         (\<exists>v w' r' acc' w1. json_value n s = Scanned v w' r' \<and> skip_ws r' \<noteq> [] \<and>
             json_elems n (skip_ws (tl (skip_ws r'))) acc' w1 = OutOfFuel)"
  using assms by (auto simp: Let_def split: scan.splits if_splits)

lemma json_members_Suc_OutOfFuel:
  assumes "json_members (Suc n) s kacc w0 = OutOfFuel"
  shows "\<exists>k wk r'. json_scanstring [] False s = Scanned k wk r' \<and>
           (json_value n (skip_ws (tl (skip_ws r'))) = OutOfFuel \<or>
            (\<exists>v wv r2 kacc' w1. json_value n (skip_ws (tl (skip_ws r'))) = Scanned v wv r2 \<and>
               skip_ws r2 \<noteq> [] \<and> skip_ws (tl (skip_ws r2)) \<noteq> [] \<and>
               json_members n (tl (skip_ws (tl (skip_ws r2)))) kacc' w1 = OutOfFuel))"
  using assms json_scanstring_fuel [of "[]" False s]
  by (auto simp: Let_def split: scan.splits if_splits)

lemma tl_skip_ws_le: "length (tl (skip_ws s)) < length s \<or> s = []"
  using skip_ws_length [of s] by (cases s; cases "skip_ws s") auto

lemma json_scan_fuel:
  "(\<forall>s. 2 * length s < n \<longrightarrow> json_value n s \<noteq> OutOfFuel) \<and>
   (\<forall>s acc w0. 2 * length s + 1 < n \<longrightarrow> json_elems n s acc w0 \<noteq> OutOfFuel) \<and>
   (\<forall>s kacc w0. 2 * length s + 1 < n \<longrightarrow> json_members n s kacc w0 \<noteq> OutOfFuel)"
proof (induction n)
  case 0
  then show ?case by simp
next
  case (Suc n)
  then have V: "\<And>s. 2 * length s < n \<Longrightarrow> json_value n s \<noteq> OutOfFuel"
    and E: "\<And>s acc w0. 2 * length s + 1 < n \<Longrightarrow> json_elems n s acc w0 \<noteq> OutOfFuel"
    and M: "\<And>s kacc w0. 2 * length s + 1 < n \<Longrightarrow> json_members n s kacc w0 \<noteq> OutOfFuel"
    by blast+
  have "json_value (Suc n) s \<noteq> OutOfFuel" if l: "2 * length s < Suc n" for s
  proof
    assume h: "json_value (Suc n) s = OutOfFuel"
    then obtain c cs where s: "s = c # cs" by (cases s) auto
    have "length (skip_ws cs) \<le> length cs" by (rule skip_ws_length)
    moreover have "skip_ws cs \<noteq> [] \<Longrightarrow> length (tl (skip_ws cs)) < length cs"
      using skip_ws_length [of cs] by (cases "skip_ws cs") auto
    ultimately show False
      using json_value_Suc_OutOfFuel [OF h [unfolded s]] l s E M by fastforce
  qed
  moreover have "json_elems (Suc n) s acc w0 \<noteq> OutOfFuel" if l: "2 * length s + 1 < Suc n" for s acc w0
  proof
    assume h: "json_elems (Suc n) s acc w0 = OutOfFuel"
    have "json_value n s \<noteq> OutOfFuel" using V l by simp
    then obtain v w' r' acc' w1 where sc: "json_value n s = Scanned v w' r'" and ne: "skip_ws r' \<noteq> []"
      and oo: "json_elems n (skip_ws (tl (skip_ws r'))) acc' w1 = OutOfFuel"
      using json_elems_Suc_OutOfFuel [OF h] by blast
    have "length (skip_ws (tl (skip_ws r'))) < length s"
      using json_value_consumes [OF sc] skip_ws_length [of "tl (skip_ws r')"] skip_ws_length [of r'] ne
      by (cases "skip_ws r'") auto
    then show False using E [of "skip_ws (tl (skip_ws r'))" acc' w1] oo l by simp
  qed
  moreover have "json_members (Suc n) s kacc w0 \<noteq> OutOfFuel" if l: "2 * length s + 1 < Suc n" for s kacc w0
  proof
    assume h: "json_members (Suc n) s kacc w0 = OutOfFuel"
    then obtain k wk r' where sc: "json_scanstring [] False s = Scanned k wk r'"
      and rest: "json_value n (skip_ws (tl (skip_ws r'))) = OutOfFuel \<or>
            (\<exists>v wv r2 kacc' w1. json_value n (skip_ws (tl (skip_ws r'))) = Scanned v wv r2 \<and>
               skip_ws r2 \<noteq> [] \<and> skip_ws (tl (skip_ws r2)) \<noteq> [] \<and>
               json_members n (tl (skip_ws (tl (skip_ws r2)))) kacc' w1 = OutOfFuel)"
      using json_members_Suc_OutOfFuel by blast
    have l1: "length (skip_ws (tl (skip_ws r'))) < length s"
      using json_scanstring_consumes [OF sc] skip_ws_length [of "tl (skip_ws r')"] skip_ws_length [of r']
      by (cases "skip_ws r'") auto
    show False
    proof (cases "json_value n (skip_ws (tl (skip_ws r'))) = OutOfFuel")
      case True
      then show False using V l1 l by fastforce
    next
      case False
      then obtain v wv r2 kacc' w1 where sv: "json_value n (skip_ws (tl (skip_ws r'))) = Scanned v wv r2"
        and ne: "skip_ws r2 \<noteq> []" "skip_ws (tl (skip_ws r2)) \<noteq> []"
        and oo: "json_members n (tl (skip_ws (tl (skip_ws r2)))) kacc' w1 = OutOfFuel"
        using rest by blast
      have "length (tl (skip_ws (tl (skip_ws r2)))) < length s"
        using json_value_consumes [OF sv] l1 ne skip_ws_length [of r2] skip_ws_length [of "tl (skip_ws r2)"]
        by (cases "skip_ws r2"; cases "skip_ws (tl (skip_ws r2))") auto
      then show False using M [of "tl (skip_ws (tl (skip_ws r2)))" kacc' w1] oo l by simp
    qed
  qed
  ultimately show ?case by blast
qed

lemma json_value_fuel: "2 * length s < n \<Longrightarrow> json_value n s \<noteq> OutOfFuel"
  using json_scan_fuel by blast

section \<open>Lemmas: decoding what \<^verbatim>\<open>json.dumps\<close> wrote\<close>

lemma hex_value_hex_digit: "0 \<le> d \<Longrightarrow> d < 16 \<Longrightarrow> hex_value (hex_digit d) = Some d"
  by (auto simp: hex_value_def hex_digit_def digit_char_def Let_def)

lemma hex_digits_00:
  assumes "0 \<le> n" "n < 256"
  shows "hex_digits 0 [CHR ''0'', CHR ''0'', hex_digit (n div 16), hex_digit (n mod 16)] = Some n"
proof -
  have "0 \<le> n div 16" "n div 16 < 16" "0 \<le> n mod 16" "n mod 16 < 16" using assms by auto
  moreover have "hex_value (CHR ''0'') = Some 0" by (simp add: hex_value_def)
  ultimately show ?thesis by (simp add: hex_value_hex_digit)
qed

lemma char_of_short_escapes:
  "char_of (8 :: int) = CHR 0x08" "char_of (9 :: int) = CHR 0x09" "char_of (10 :: int) = CHR 0x0A"
  "char_of (12 :: int) = CHR 0x0C" "char_of (13 :: int) = CHR 0x0D"
  by (simp_all add: char_of_def)

lemma json_scanstring_escape_char:
  "json_scanstring acc w (json_escape_char c @ rest) = json_scanstring (acc @ [c]) w rest"
proof -
  define n where "n = (of_char c :: int)"
  have n0: "0 \<le> n" and n256: "n < 256" and cn: "char_of n = c"
  proof -
    have "(of_char c :: int) = int (of_char c)" by (simp add: of_nat_of_char)
    then show "0 \<le> n" "n < 256" "char_of n = c"
      using nat_of_char_less_256 [of c] by (simp_all add: n_def)
  qed
  have nn: "(of_char c :: nat) = nat n" unfolding n_def by (metis nat_int of_nat_of_char)
  show ?thesis
  proof (cases "c = CHR 0x5C \<or> c = CHR 0x22")
    case True
    then show ?thesis by (auto simp: json_escape_char_def json_simple_escape_def)
  next
    case nq: False
    show ?thesis
    proof (cases "n = 8 \<or> n = 9 \<or> n = 10 \<or> n = 12 \<or> n = 13")
      case True
      then show ?thesis using nq cn
        by (auto simp: json_escape_char_def json_simple_escape_def Let_def n_def [symmetric] char_of_short_escapes)
    next
      case ns: False
      show ?thesis
      proof (cases "32 \<le> n \<and> n \<le> 126")
        case True
        then have "\<not> nat n < 32" by linarith
        then show ?thesis using True nq ns nn by (simp add: json_escape_char_def Let_def n_def [symmetric])
      next
        case False
        then show ?thesis using nq ns cn n256 hex_digits_00 [OF n0 n256]
          by (auto simp: json_escape_char_def Let_def n_def [symmetric] simp del: hex_digits.simps)
      qed
    qed
  qed
qed

lemma json_scanstring_dumps:
  "json_scanstring acc w (concat (map json_escape_char s) @ CHR 0x22 # rest) = Scanned (acc @ s) w rest"
  by (induction s arbitrary: acc) (simp_all add: json_scanstring_escape_char)

lemma digits_of_int_hd_zero: "0 \<le> n \<Longrightarrow> hd (digits_of_int n) = CHR ''0'' \<Longrightarrow> n = 0"
proof (induction n rule: digits_of_int.induct)
  case (1 n)
  show ?case
  proof (cases "n < 10")
    case True
    then have "digit_char n = CHR ''0''" using "1.prems" by (simp add: digits_of_int.simps [of n])
    then have "(of_char (digit_char n) :: int) = 48" by simp
    then show ?thesis using True "1.prems"(1) of_char_digit_char [of n] by simp
  next
    case False
    then have "hd (digits_of_int (n div 10)) = CHR ''0''"
      using "1.prems" by (simp add: digits_of_int.simps [of n])
    then have "n div 10 = 0" using "1.IH" False "1.prems"(1) by simp
    then show ?thesis using False "1.prems"(1) by simp
  qed
qed

lemma json_end_frac: "json_end r \<Longrightarrow> number_frac_part r = ([], r)"
  by (auto simp: json_end_def number_frac_part_def split: list.splits)

lemma json_end_exp: "json_end r \<Longrightarrow> number_exp_part r = None"
  by (auto simp: json_end_def number_exp_part_def split: list.splits)

lemma digit_run_digits:
  "\<forall>c \<in> set ds. is_digit c \<Longrightarrow> json_end r \<Longrightarrow> digit_run (ds @ r) = (ds, r)"
proof (induction ds)
  case Nil
  then show ?case by (cases r) (auto simp: digit_run_def json_end_def is_digit_def)
next
  case (Cons c cs)
  then show ?case by (simp add: digit_run_def)
qed

lemma number_int_part_digits:
  assumes "all_digits ds" "hd ds = CHR ''0'' \<longrightarrow> ds = ''0''" "json_end r"
  shows "number_int_part (ds @ r) = Some (False, ds, r)"
    and "number_int_part (CHR ''-'' # ds @ r) = Some (True, ds, r)"
proof -
  obtain c cs where ds: "ds = c # cs" and c: "is_digit c" and cs: "\<forall>x \<in> set cs. is_digit x"
    using assms(1) by (cases ds) (auto simp: all_digits_def)
  have nm: "c \<noteq> CHR ''-''" using c by (auto simp: is_digit_def)
  have "c = CHR ''0'' \<Longrightarrow> cs = []" using assms(2) ds by simp
  then show "number_int_part (ds @ r) = Some (False, ds, r)"
    and "number_int_part (CHR ''-'' # ds @ r) = Some (True, ds, r)"
    using ds c nm digit_run_digits [OF cs assms(3)] by (auto simp: number_int_part_def)
qed

lemma json_number_int:
  assumes "py_str_int i = Inr t" "json_end rest"
  shows "json_number (t @ rest) = Some (Inr (JInt i, rest))"
proof -
  define ds where "ds = digits_of_int \<bar>i\<bar>"
  have l: "length ds \<le> max_str_digits" and t: "t = (if i < 0 then CHR ''-'' # ds else ds)"
    using assms(1) by (auto simp: py_str_int_def ds_def Let_def split: if_splits)
  have ad: "all_digits ds" by (simp add: ds_def digits_of_int_all_digits)
  have "hd ds = CHR ''0'' \<longrightarrow> ds = ''0''"
    using digits_of_int_hd_zero [of "\<bar>i\<bar>"] by (auto simp: ds_def)
  note ip = number_int_part_digits [OF ad this assms(2)]
  have "filter is_digit ds = ds" using ad by (simp add: all_digits_def)
  then have "py_int_of_digits ds = Inr \<bar>i\<bar>" using l by (simp add: py_int_of_digits_def ds_def)
  then show ?thesis
    using ip t json_end_frac [OF assms(2)] json_end_exp [OF assms(2)]
    by (auto simp: json_number_def py_bind_def)
qed

lemma join_with_Cons': "join_with sep (e # es) = e @ (if es = [] then [] else sep @ join_with sep es)"
  by (cases es) auto

lemma skip_ws_start: "t \<noteq> [] \<Longrightarrow> \<not> json_ws (hd t) \<Longrightarrow> skip_ws (t @ r) = t @ r"
  by (cases t) (simp_all add: skip_ws_def)

lemma skip_ws_sep [simp]:
  "skip_ws (CHR '','' # r) = CHR '','' # r" "skip_ws (CHR '':'' # r) = CHR '':'' # r"
  "skip_ws (CHR '']'' # r) = CHR '']'' # r" "skip_ws (CHR ''}'' # r) = CHR ''}'' # r"
  "skip_ws (CHR '' '' # r) = skip_ws r"
  by (simp_all add: skip_ws_def json_ws_def)

lemma py_str_int_start:
  assumes "py_str_int i = Inr t"
  obtains c t' where "t = c # t'" "is_digit c"
  | t' where "t = CHR ''-'' # t'" "t' \<noteq> []" "is_digit (hd t')"
proof -
  define ds where "ds = digits_of_int \<bar>i\<bar>"
  have ad: "all_digits ds" by (simp add: ds_def digits_of_int_all_digits)
  have t: "t = (if i < 0 then CHR ''-'' # ds else ds)"
    using assms by (auto simp: py_str_int_def ds_def Let_def split: if_splits)
  show ?thesis
  proof (cases "i < 0")
    case True
    then show ?thesis using that(2) [of ds] t ad by (simp add: all_digits_def)
  next
    case False
    then show ?thesis using that(1) [of "hd ds" "tl ds"] t ad by (simp add: all_digits_def)
  qed
qed

lemma map_sum_id_Inr [simp]: "map_sum id f x = Inr t \<longleftrightarrow> (\<exists>a. x = Inr a \<and> t = f a)"
  by (cases x) auto

lemma json_dumps_start:
  "json_dumps v = Inr t \<Longrightarrow> json_wf v \<Longrightarrow>
   t \<noteq> [] \<and> \<not> json_ws (hd t) \<and> hd t \<noteq> CHR '']'' \<and> hd t \<noteq> CHR ''}'' \<and> hd t \<noteq> CHR '',''"
proof (cases v)
  case (JInt i)
  assume "json_dumps v = Inr t"
  then have "py_str_int i = Inr t" using JInt by simp
  then show ?thesis
    by (cases rule: py_str_int_start) (auto simp: json_ws_def is_digit_def)
next
  case (JFloat f)
  then show "json_dumps v = Inr t \<Longrightarrow> json_wf v \<Longrightarrow> ?thesis"
    by (cases f) (auto simp: json_ws_def)
next
  case (JArr xs)
  then show "json_dumps v = Inr t \<Longrightarrow> json_wf v \<Longrightarrow> ?thesis"
    by (auto simp: json_ws_def split: sum.splits)
next
  case (JObj kvs)
  then show "json_dumps v = Inr t \<Longrightarrow> json_wf v \<Longrightarrow> ?thesis"
    by (auto simp: json_ws_def split: sum.splits)
next
  case (JBool b)
  then show "json_dumps v = Inr t \<Longrightarrow> json_wf v \<Longrightarrow> ?thesis"
    by (cases b) (auto simp: json_ws_def)
qed (auto simp: json_ws_def json_dumps_str_def)

lemma json_atom_dumps:
  assumes "json_dumps v = Inr t" "json_wf v" "json_end rest"
    and "\<forall>s. v \<noteq> JStr s" "\<forall>xs. v \<noteq> JArr xs" "\<forall>kvs. v \<noteq> JObj kvs"
  shows "json_atom (t @ rest) = Scanned v False rest"
proof (cases v)
  case (JInt i)
  then have p: "py_str_int i = Inr t" using assms(1) by simp
  have "take 4 (t @ rest) \<noteq> ''null'' \<and> take 4 (t @ rest) \<noteq> ''true'' \<and> take 5 (t @ rest) \<noteq> ''false'' \<and>
        take 3 (t @ rest) \<noteq> ''NaN'' \<and> take 8 (t @ rest) \<noteq> ''Infinity'' \<and> take 9 (t @ rest) \<noteq> ''-Infinity''"
    using p by (cases rule: py_str_int_start; cases "tl t") (auto simp: is_digit_def)
  then show ?thesis using JInt json_number_int [OF p assms(3)] by (simp add: json_atom_def)
next
  case (JFloat f)
  then show ?thesis using assms(1,2) by (cases f) (auto simp: json_atom_def)
next
  case (JBool b)
  then show ?thesis using assms(1) by (cases b) (auto simp: json_atom_def)
qed (use assms in \<open>auto simp: json_atom_def\<close>)

lemma json_dumps_elems_length: "json_dumps_elems xs = Inr es \<Longrightarrow> length es = length xs"
  by (induction xs arbitrary: es) (auto simp: py_bind_def split: sum.splits)

lemma json_dumps_items_length: "json_dumps_items kvs = Inr its \<Longrightarrow> length its = length kvs"
  by (induction kvs arbitrary: its) (auto simp: py_bind_def split: sum.splits)

lemma is_digit_not_special:
  "is_digit c \<Longrightarrow> c \<noteq> CHR 0x22 \<and> c \<noteq> CHR ''{'' \<and> c \<noteq> CHR ''['' \<and> c \<noteq> CHR ''-''"
  by (auto simp: is_digit_def)

lemma json_value_atom:
  "c \<noteq> CHR 0x22 \<Longrightarrow> c \<noteq> CHR ''{'' \<Longrightarrow> c \<noteq> CHR ''['' \<Longrightarrow>
   json_value (Suc n) (c # cs) = json_atom (c # cs)"
  by simp

lemma dict_set_new: "k \<notin> set (map fst kacc) \<Longrightarrow> dict_set kacc k v = kacc @ [(k, v)]"
  by (induction kacc) auto

lemma json_dumps_scan:
  "json_dumps v = Inr t \<Longrightarrow> json_wf v \<Longrightarrow> json_end rest \<Longrightarrow> 2 * length t < n \<Longrightarrow>
     json_value n (t @ rest) = Scanned v False rest"
  "json_dumps_elems xs = Inr es \<Longrightarrow> json_wf_elems xs \<Longrightarrow> xs \<noteq> [] \<Longrightarrow>
     2 * length (join_with '', '' es) + 2 < n \<Longrightarrow>
     json_elems n (join_with '', '' es @ CHR '']'' # rest) acc w = Scanned (acc @ xs) w rest"
  "json_dumps_items kvs = Inr its \<Longrightarrow> json_wf_items kvs \<Longrightarrow> kvs \<noteq> [] \<Longrightarrow>
     distinct (map fst kvs) \<Longrightarrow> set (map fst kvs) \<inter> set (map fst kacc) = {} \<Longrightarrow>
     2 * length (join_with '', '' its) + 2 < n \<Longrightarrow>
     json_members n (tl (join_with '', '' its) @ CHR ''}'' # rest) kacc w = Scanned (kacc @ kvs) w rest"
proof (induction v and xs and kvs arbitrary: t rest n and es rest n acc w and its rest n kacc w
       rule: json_dumps_json_dumps_elems_json_dumps_items.induct)
  case 1
  then show ?case by (cases n) (auto simp: json_atom_def)
next
  case (2 b)
  then show ?case by (cases n; cases b) (auto simp: json_atom_def)
next
  case (3 i)
  obtain n' where n: "n = Suc n'" using "3.prems"(4) by (cases n) auto
  have p: "py_str_int i = Inr t" using "3.prems"(1) by simp
  have "\<exists>c t'. t = c # t' \<and> c \<noteq> CHR 0x22 \<and> c \<noteq> CHR ''{'' \<and> c \<noteq> CHR ''[''"
    using p by (cases rule: py_str_int_start) (auto dest: is_digit_not_special)
  then obtain c t' where "t = c # t'" "c \<noteq> CHR 0x22" "c \<noteq> CHR ''{''" "c \<noteq> CHR ''[''" by blast
  then show ?case
    using json_atom_dumps [OF "3.prems"(1,2,3)] n by simp
next
  case (4 f)
  then show ?case by (cases n; cases f) (auto simp: json_atom_def)
next
  case (5 s)
  obtain n' where n: "n = Suc n'" using "5.prems"(4) by (cases n) auto
  have t: "t = json_dumps_str s" using "5.prems"(1) by simp
  show ?case
    using n json_scanstring_dumps [of "[]" False s rest] by (simp add: t json_dumps_str_def)
next
  case (6 xs)
  obtain n' where n: "n = Suc n'" using "6.prems"(4) by (cases n) auto
  obtain es where es: "json_dumps_elems xs = Inr es" and t: "t = ''['' @ join_with '', '' es @ '']''"
    using "6.prems"(1) by auto
  show ?case
  proof (cases xs)
    case Nil
    then show ?thesis using es t n by simp
  next
    case (Cons x xs')
    then obtain e es' where ees: "es = e # es'" "json_dumps x = Inr e"
      using es json_dumps_elems_length [OF es] by (cases es) (auto simp: py_bind_def split: sum.splits)
    have "json_wf x" using "6.prems"(2) Cons by simp
    then have st: "e \<noteq> [] \<and> \<not> json_ws (hd e) \<and> hd e \<noteq> CHR '']''"
      using json_dumps_start [OF ees(2)] by simp
    have j: "join_with '', '' es @ CHR '']'' # rest = e @ ((if es' = [] then [] else '', '' @ join_with '', '' es') @ CHR '']'' # rest)"
      using ees by (simp add: join_with_Cons')
    have sk: "skip_ws (join_with '', '' es @ CHR '']'' # rest) = join_with '', '' es @ CHR '']'' # rest"
      using st skip_ws_start [of e] by (simp only: j) blast
    have hd: "hd (join_with '', '' es @ CHR '']'' # rest) \<noteq> CHR '']''" using st j by simp
    have ne: "join_with '', '' es @ CHR '']'' # rest \<noteq> []" by simp
    have "json_elems n' (join_with '', '' es @ CHR '']'' # rest) [] False = Scanned ([] @ xs) False rest"
      using "6.IH" [OF es] "6.prems"(2,4) Cons n t by simp
    then show ?thesis using n t sk hd ne by (simp add: Let_def)
  qed
next
  case (7 kvs)
  obtain n' where n: "n = Suc n'" using "7.prems"(4) by (cases n) auto
  obtain its where its: "json_dumps_items kvs = Inr its" and t: "t = ''{'' @ join_with '', '' its @ ''}''"
    using "7.prems"(1) by auto
  show ?case
  proof (cases kvs)
    case Nil
    then show ?thesis using its t n by simp
  next
    case (Cons kv kvs')
    then obtain i its' where iis: "its = i # its'" "\<exists>e. i = json_dumps_str (fst kv) @ '': '' @ e"
      using its json_dumps_items_length [OF its] by (cases its; cases kv) (auto simp: py_bind_def split: sum.splits)
    have j: "join_with '', '' its @ CHR ''}'' # rest = CHR 0x22 # (tl (join_with '', '' its) @ CHR ''}'' # rest)"
      using iis by (auto simp: join_with_Cons' json_dumps_str_def)
    have "json_members n' (tl (join_with '', '' its) @ CHR ''}'' # rest) [] False = Scanned ([] @ kvs) False rest"
      using "7.IH" [OF its] "7.prems"(2,4) Cons n t by simp
    moreover have "skip_ws (join_with '', '' its @ CHR ''}'' # rest) =
                   CHR 0x22 # (tl (join_with '', '' its) @ CHR ''}'' # rest)"
      by (simp only: j) (simp add: skip_ws_def json_ws_def)
    ultimately show ?thesis using n t by (simp add: Let_def)
  qed
next
  case 8
  then show ?case by simp
next
  case (9 x xs)
  obtain n' where n: "n = Suc n'" using "9.prems"(4) by (cases n) auto
  obtain e es' where e: "json_dumps x = Inr e" and es': "json_dumps_elems xs = Inr es'"
    and es: "es = e # es'"
    using "9.prems"(1) by (auto simp: py_bind_def split: sum.splits)
  have wx: "json_wf x" and wxs: "json_wf_elems xs" using "9.prems"(2) by simp_all
  define R where "R = (if es' = [] then [] else '', '' @ join_with '', '' es') @ CHR '']'' # rest"
  have j: "join_with '', '' es @ CHR '']'' # rest = e @ R" by (simp add: es R_def join_with_Cons')
  have "length e \<le> length (join_with '', '' es)" by (simp add: es join_with_Cons')
  then have fe: "2 * length e < n'" using "9.prems"(4) n by simp
  have "json_end R" by (simp add: R_def json_end_def)
  then have v: "json_value n' (e @ R) = Scanned x False R" using "9.IH"(1) [OF e wx _ fe] by simp
  show ?case
  proof (cases xs)
    case Nil
    then have "es' = []" using json_dumps_elems_length [OF es'] by simp
    then show ?thesis using n j v Nil by (simp add: R_def)
  next
    case (Cons x2 xs2)
    then obtain e2 es2 where "es' = e2 # es2" "json_dumps x2 = Inr e2"
      using es' json_dumps_elems_length [OF es'] by (cases es') (auto simp: py_bind_def split: sum.splits)
    moreover have "json_wf x2" using wxs Cons by simp
    ultimately have st: "join_with '', '' es' \<noteq> [] \<and> \<not> json_ws (hd (join_with '', '' es'))"
      using json_dumps_start [of x2 e2] by (auto simp: join_with_Cons')
    have sk: "skip_ws (join_with '', '' es' @ CHR '']'' # rest) = join_with '', '' es' @ CHR '']'' # rest"
      using st skip_ws_start by blast
    have ne: "es' \<noteq> []" using Cons json_dumps_elems_length [OF es'] by auto
    have "length (join_with '', '' es) = length e + 2 + length (join_with '', '' es')"
      using ne by (simp add: es join_with_Cons')
    then have "2 * length (join_with '', '' es') + 2 < n'" using "9.prems"(4) n st by simp
    then have "json_elems n' (join_with '', '' es' @ CHR '']'' # rest) (acc @ [x]) w = Scanned ((acc @ [x]) @ xs) w rest"
      using "9.IH"(2) [OF es' wxs] Cons by simp
    then show ?thesis using n j v ne sk by (simp add: R_def Let_def)
  qed
next
  case 10
  then show ?case by simp
next
  case (11 k v kvs)
  obtain n' where n: "n = Suc n'" using "11.prems"(6) by (cases n) auto
  obtain e its' where e: "json_dumps v = Inr e" and its': "json_dumps_items kvs = Inr its'"
    and its: "its = (json_dumps_str k @ '': '' @ e) # its'"
    using "11.prems"(1) by (auto simp: py_bind_def split: sum.splits)
  have wv: "json_wf v" and wkvs: "json_wf_items kvs" using "11.prems"(2) by simp_all
  define R where "R = (if its' = [] then [] else '', '' @ join_with '', '' its') @ CHR ''}'' # rest"
  have j: "tl (join_with '', '' its) @ CHR ''}'' # rest =
           concat (map json_escape_char k) @ CHR 0x22 # CHR '':'' # CHR '' '' # e @ R"
    by (simp add: its R_def join_with_Cons' json_dumps_str_def)
  have "length e \<le> length (join_with '', '' its)" by (simp add: its join_with_Cons')
  then have fe: "2 * length e < n'" using "11.prems"(6) n by simp
  have "json_end R" by (simp add: R_def json_end_def)
  then have vv: "json_value n' (e @ R) = Scanned v False R" using "11.IH"(1) [OF e wv _ fe] by simp
  have st: "e \<noteq> [] \<and> \<not> json_ws (hd e)" using json_dumps_start [OF e wv] by simp
  have ske: "skip_ws (e @ R) = e @ R" using st skip_ws_start by blast
  have kn: "k \<notin> set (map fst kacc)" using "11.prems"(5) by auto
  have sc: "json_scanstring [] False (tl (join_with '', '' its) @ CHR ''}'' # rest) =
            Scanned k False (CHR '':'' # CHR '' '' # e @ R)"
    using json_scanstring_dumps [of "[]" False k] by (simp only: j) simp
  show ?case
  proof (cases kvs)
    case Nil
    then have "its' = []" using json_dumps_items_length [OF its'] by simp
    then show ?thesis using n sc vv ske Nil dict_set_new [OF kn] by (simp add: R_def Let_def)
  next
    case (Cons kv2 kvs2)
    then obtain i2 its2 where "its' = i2 # its2" "\<exists>e2. i2 = json_dumps_str (fst kv2) @ '': '' @ e2"
      using its' json_dumps_items_length [OF its'] by (cases its'; cases kv2) (auto simp: py_bind_def split: sum.splits)
    then have hd2: "join_with '', '' its' @ CHR ''}'' # rest = CHR 0x22 # (tl (join_with '', '' its') @ CHR ''}'' # rest)"
      by (auto simp: join_with_Cons' json_dumps_str_def)
    have ne: "its' \<noteq> []" using Cons json_dumps_items_length [OF its'] by auto
    have "length (join_with '', '' its) = length (json_dumps_str k @ '': '' @ e) + 2 + length (join_with '', '' its')"
      using ne by (simp add: its join_with_Cons')
    then have f1: "2 * length (join_with '', '' its') + 2 < n'" using "11.prems"(6) n st by simp
    have f2: "distinct (map fst kvs)" and f3: "set (map fst kvs) \<inter> set (map fst (kacc @ [(k, v)])) = {}"
      using "11.prems"(4,5) by auto
    have "json_members n' (tl (join_with '', '' its') @ CHR ''}'' # rest) (kacc @ [(k, v)]) w =
                     Scanned ((kacc @ [(k, v)]) @ kvs) w rest"
      using f1 f2 f3 unfolding Cons by (intro "11.IH"(2) [OF its' wkvs, unfolded Cons]) simp_all
    moreover have "skip_ws (CHR 0x22 # tl (join_with '', '' its') @ CHR ''}'' # rest) =
                   CHR 0x22 # tl (join_with '', '' its') @ CHR ''}'' # rest"
      by (simp add: skip_ws_def json_ws_def)
    ultimately show ?thesis using n sc vv ske ne hd2 dict_set_new [OF kn] by (simp add: R_def Let_def)
  qed
qed

lemma json_loads_fuel: "json_value (Suc (2 * length s)) (skip_ws s) \<noteq> OutOfFuel"
  using skip_ws_length [of s] by (intro json_value_fuel) simp

text \<open>C35. Round trip: the text \<^verbatim>\<open>json.dumps\<close> writes for a well-formed value (distinct
  object keys, no finite floats) is decoded by \<^verbatim>\<open>json.loads\<close> back to the same value.\<close>

theorem json_loads_dumps:
  assumes "json_dumps v = Inr t" and "json_wf v"
  shows "json_loads t = Some (Inr v)"
proof -
  have st: "t \<noteq> [] \<and> \<not> json_ws (hd t)" using json_dumps_start [OF assms] by simp
  then have "skip_ws t = t" using skip_ws_start [of t "[]"] by simp
  moreover have "json_value (Suc (2 * length t)) (t @ []) = Scanned v False []"
    using assms by (intro json_dumps_scan(1)) (simp_all add: json_end_def)
  ultimately show ?thesis by (simp add: json_loads_def skip_ws_def)
qed

theorem json_loads_dumps_witness:
  "json_dumps (JObj [(''name'', JStr ''Palak Paneer''), (''recipeYield'', JInt 4)]) =
     Inr ''{\"name\": \"Palak Paneer\", \"recipeYield\": 4}'' \<and>
   json_wf (JObj [(''name'', JStr ''Palak Paneer''), (''recipeYield'', JInt 4)]) \<and>
   json_loads ''{\"name\": \"Palak Paneer\", \"recipeYield\": 4}'' =
     Some (Inr (JObj [(''name'', JStr ''Palak Paneer''), (''recipeYield'', JInt 4)]))"
proof -
  have d: "json_dumps (JObj [(''name'', JStr ''Palak Paneer''), (''recipeYield'', JInt 4)]) =
     Inr ''{\"name\": \"Palak Paneer\", \"recipeYield\": 4}''"
    by code_simp
  have w: "json_wf (JObj [(''name'', JStr ''Palak Paneer''), (''recipeYield'', JInt 4)])" by code_simp
  show ?thesis using d w json_loads_dumps [OF d w] by simp
qed

section \<open>Lemmas: what \<^verbatim>\<open>str\<close> can print\<close>

lemma json_number_ints_ok: "json_number s = Some (Inr (v, r)) \<Longrightarrow> json_ints_ok v"
  by (auto simp: json_number_def py_bind_def split: option.splits prod.splits if_splits sum.splits
           dest: py_int_of_digits_str)

lemma json_atom_ints_ok: "json_atom s = Scanned v w r \<Longrightarrow> json_ints_ok v"
  by (auto simp: json_atom_def split: if_splits option.splits sum.splits dest: json_number_ints_ok)

lemma json_ints_ok_elems_append [simp]:
  "json_ints_ok_elems (xs @ ys) \<longleftrightarrow> json_ints_ok_elems xs \<and> json_ints_ok_elems ys"
  by (induction xs) auto

lemma json_ints_ok_dict_set:
  "json_ints_ok_items kvs \<Longrightarrow> json_ints_ok v \<Longrightarrow> json_ints_ok_items (dict_set kvs k v)"
  by (induction kvs k v rule: dict_set.induct) auto

lemma json_scan_ints_ok:
  "json_value n s = Scanned v w r \<Longrightarrow> json_ints_ok v"
  "json_elems n s acc w0 = Scanned vs w r \<Longrightarrow> json_ints_ok_elems acc \<Longrightarrow> json_ints_ok_elems vs"
  "json_members n s kacc w0 = Scanned kvs w r \<Longrightarrow> json_ints_ok_items kacc \<Longrightarrow> json_ints_ok_items kvs"
proof (induction n s and n s acc w0 and n s kacc w0 arbitrary: v w r and vs w r and kvs w r
       rule: json_value_json_elems_json_members.induct)
  case (2 n s)
  then show ?case
    by (auto simp: Let_def scan_map_Scanned split: list.splits if_splits dest: json_atom_ints_ok)
next
  case (4 n s acc w0)
  then show ?case
    by (auto simp: Let_def split: scan.splits if_splits)
next
  case (6 n s kacc w0)
  then show ?case
    by (auto simp: Let_def json_ints_ok_dict_set split: scan.splits if_splits)
qed simp_all

lemma json_loads_ints_ok:
  assumes "json_loads s = Some (Inr v)"
  shows "json_ints_ok v"
proof -
  obtain w r where "json_value (Suc (2 * length s)) (skip_ws s) = Scanned v w r"
    using assms by (auto simp: json_loads_def simp del: json_value.simps split: scan.splits if_splits)
  then show ?thesis by (rule json_scan_ints_ok(1))
qed

text \<open>
  C7. Every value \<^verbatim>\<open>json.loads\<close> returns can be printed by \<^verbatim>\<open>str\<close>: the decoder
  refuses an int of more than 4300 digits, the one value whose \<^verbatim>\<open>str\<close> raises, so
  the dish name printed by line 150 and written by line 138 never raises.
\<close>

theorem json_loads_str: "json_loads s = Some (Inr v) \<Longrightarrow> \<exists>t. py_str v = Inr t"
  by (rule py_str_ints_ok) (rule json_loads_ints_ok)

theorem json_loads_str_witness:
  "json_loads ''[12, -3]'' = Some (Inr (JArr [JInt 12, JInt (- 3)])) \<and>
   (\<exists>t. py_str (JArr [JInt 12, JInt (- 3)]) = Inr t)"
proof -
  have l: "json_loads ''[12, -3]'' = Some (Inr (JArr [JInt 12, JInt (- 3)]))" by code_simp
  show ?thesis using l json_loads_str [OF l] by blast
qed

end
