(* ===== verification/Document.thy ===== *)
theory Document
  imports JsonDecode Scraper
begin

text \<open>
  The page as \<^verbatim>\<open>BeautifulSoup(driver.page_source, "html.parser")\<close> delivers it
  (\<^verbatim>\<open>main.py\<close> lines 80--87): a tree of elements and text. \<^verbatim>\<open>soup.find\<close>
  looks for the first \<^verbatim>\<open>script\<close> element, in document order, whose
  \<^verbatim>\<open>type\<close> attribute is \<^verbatim>\<open>application/ld+json\<close>; \<^verbatim>\<open>.string\<close> reads its
  text; \<^verbatim>\<open>json.loads\<close> decodes it. Together they give the \<open>page\<close> value the
  scraper works on. The tokenising of the HTML text into the tree is not modelled.
\<close>

section \<open>The parse tree\<close>

text \<open>
  A \<^verbatim>\<open>NavigableString\<close> (text, a comment, the body of a script) or a
  \<^verbatim>\<open>Tag\<close> with its name, its attributes in source order and its children.
\<close>

datatype node = Text string | Elem string "(string \<times> string) list" "node list"

text \<open>
  The value of an attribute: \<^verbatim>\<open>html.parser\<close> keeps the last of repeated
  attributes (\<^verbatim>\<open>on_duplicate_attribute='replace'\<close>).
\<close>

definition attr_value :: "(string \<times> string) list \<Rightarrow> string \<Rightarrow> string option" where
  "attr_value attrs a = map_of (rev attrs) a"

text \<open>
  Line 82, \<^verbatim>\<open>soup.find("script", {"type": "application/ld+json"})\<close>: a
  depth-first search of the descendants in document order; the children of the first
  match, or \<^verbatim>\<open>None\<close>. A \<^verbatim>\<open>Tag\<close> is always true, so the test of line 83
  fails only for \<^verbatim>\<open>None\<close>.
\<close>

fun find_ld_json :: "node list \<Rightarrow> node list option" where
  "find_ld_json [] = None"
| "find_ld_json (Text _ # ns) = find_ld_json ns"
| "find_ld_json (Elem name attrs kids # ns) =
     (if name = ''script'' \<and> attr_value attrs ''type'' = Some ''application/ld+json'' then Some kids
      else case find_ld_json kids of Some r \<Rightarrow> Some r | None \<Rightarrow> find_ld_json ns)"

text \<open>
  \<^verbatim>\<open>Tag.string\<close> of line 87: with exactly one child, the child itself when it is a
  string and its own \<^verbatim>\<open>.string\<close> when it is a tag; otherwise \<^verbatim>\<open>None\<close>.
\<close>

fun node_string :: "node list \<Rightarrow> string option" where
  "node_string [Text s] = Some s"
| "node_string [Elem _ _ kids] = node_string kids"
| "node_string _ = None"

text \<open>
  Lines 82--87 together: no script gives \<open>NoLdJson\<close>; \<^verbatim>\<open>json.loads(None)\<close> raises
  \<^verbatim>\<open>TypeError\<close>; otherwise the decoder's error or value. \<open>None\<close> is a text
  holding a character beyond Latin-1, outside the model.
\<close>

definition page_of_document :: "node list \<Rightarrow> page option" where
  "page_of_document doc =
     (case find_ld_json doc of
        None \<Rightarrow> Some NoLdJson
      | Some kids \<Rightarrow>
          (case node_string kids of
             None \<Rightarrow> Some (LdJsonUndecodable TypeError)
           | Some s \<Rightarrow>
               (case json_loads s of
                  None \<Rightarrow> None
                | Some (Inl e) \<Rightarrow> Some (LdJsonUndecodable e)
                | Some (Inr j) \<Rightarrow> Some (LdJson j))))"

section \<open>Lemmas\<close>

lemma find_ld_json_append:
  "find_ld_json (xs @ ys) = (case find_ld_json xs of None \<Rightarrow> find_ld_json ys | r \<Rightarrow> r)"
  by (induction xs rule: find_ld_json.induct) (auto split: option.splits)

lemma find_ld_json_first:
  "find_ld_json pre = None \<Longrightarrow> attr_value attrs ''type'' = Some ''application/ld+json'' \<Longrightarrow>
   find_ld_json (pre @ Elem ''script'' attrs kids # post) = Some kids"
  by (simp add: find_ld_json_append)

lemma scrape_json_defaults:
  assumes "\<forall>k \<in> {''name'', ''totalTime'', ''recipeYield'', ''recipeIngredient'', ''recipeInstructions''}.
             map_of kvs k = None"
  shows "scrape_json (JObj kvs) =
           Inr \<lparr>dish_name = JStr ''Unknown Dish'', ready_in_time = ''Not Available'',
                ingredients_col = ''Ingredients not found'', directions_col = ''Directions not found''\<rparr>"
proof -
  have d: "parse_iso8601_duration ''Not Available'' = Inr ''Not Available''" by code_simp
  have y: "yield_number (JStr ''1'') = 1" by code_simp
  have j: "py_join newline [JStr ''Directions not found''] = Inr ''Directions not found''"
    by (simp add: py_join_def)
  show ?thesis using assms d y j
    by (simp add: scrape_json_def py_bind_def ingredients_or_sentinel_def directions_or_sentinel_def)
qed

text \<open>
  C36. The first JSON-LD block decides the page: when the first
  \<^verbatim>\<open>application/ld+json\<close> script of the document decodes to an object without the
  recipe keys (a \<^verbatim>\<open>BreadcrumbList\<close>, say), the page gives the row of defaults,
  whatever scripts follow it.
\<close>

theorem first_ld_json_decides:
  assumes "find_ld_json pre = None"
    and "attr_value attrs ''type'' = Some ''application/ld+json''"
    and "json_loads s = Some (Inr (JObj kvs))"
    and "\<forall>k \<in> {''name'', ''totalTime'', ''recipeYield'', ''recipeIngredient'', ''recipeInstructions''}.
           map_of kvs k = None"
  shows "map_option scrape_foodcom_recipe (page_of_document (pre @ Elem ''script'' attrs [Text s] # post)) =
           Some (Inr (Some \<lparr>dish_name = JStr ''Unknown Dish'', ready_in_time = ''Not Available'',
                ingredients_col = ''Ingredients not found'', directions_col = ''Directions not found''\<rparr>))"
  using find_ld_json_first [OF assms(1,2)] assms(3) scrape_json_defaults [OF assms(4)]
  by (simp add: page_of_document_def scrape_foodcom_recipe_def)

theorem first_ld_json_decides_witness:
  "map_option scrape_foodcom_recipe
     (page_of_document [Text ''x'', Elem ''script'' [(''type'', ''application/ld+json'')] [Text ''{}''],
                        Elem ''script'' [(''type'', ''application/ld+json'')] [Text ''{\"name\": \"B\"}'']]) =
     Some (Inr (Some \<lparr>dish_name = JStr ''Unknown Dish'', ready_in_time = ''Not Available'',
                ingredients_col = ''Ingredients not found'', directions_col = ''Directions not found''\<rparr>))"
proof -
  have f: "find_ld_json [Text ''x''] = None" by simp
  have a: "attr_value [(''type'', ''application/ld+json'')] ''type'' = Some ''application/ld+json''"
    by (simp add: attr_value_def)
  have l: "json_loads ''{}'' = Some (Inr (JObj []))" by code_simp
  show ?thesis
    using first_ld_json_decides [OF f a l, of "[Elem ''script'' [(''type'', ''application/ld+json'')] [Text ''{\"name\": \"B\"}'']]"]
    by simp
qed

end
