(* ===== verification/Console.thy ===== *)
theory Console
  imports MainLoop Document "HOL-Library.Word"
begin

text \<open>
  What \<^verbatim>\<open>main.py\<close> writes to standard output. Each \<^verbatim>\<open>print\<close> call formats its
  f-string to a Python \<^verbatim>\<open>str\<close> (a sequence of Unicode code points: the Latin-1 text
  of the data and the emoji of the source), appends the newline and hands it to
  \<^verbatim>\<open>sys.stdout\<close>, whose codec turns it into bytes or raises
  \<^verbatim>\<open>UnicodeEncodeError\<close> (a \<open>ValueError\<close>) before anything is written. The codec is
  the platform's, a parameter here: UTF-8 (\<open>utf8_encode\<close>) on most systems, a code
  page such as Latin-1 (\<open>latin1_encode\<close>) on others. The text of an exception
  (\<^verbatim>\<open>{e}\<close> of line 127) is also a parameter, \<open>msg\<close>: the model of errors has the
  class of an exception, not its message.

  \<open>scrape_console\<close> and \<open>main_console\<close> run \<^verbatim>\<open>scrape_foodcom_recipe\<close> and the main
  loop with their prints: a print that raises inside the \<^verbatim>\<open>try\<close> (line 84) is
  caught by the \<^verbatim>\<open>except\<close>, one that raises elsewhere ends the program. The trace
  model of \<open>MainLoop\<close> is their abstraction when every print succeeds.
\<close>

type_synonym byte = "8 word"

type_synonym ustr = "nat list"

section \<open>Codecs\<close>

text \<open>Python's \<^verbatim>\<open>'utf-8'\<close> codec, strict: a surrogate cannot be encoded.\<close>

definition utf8_encode :: "nat \<Rightarrow> byte list option" where
  "utf8_encode c =
     (if c < 128 then Some [of_nat c]
      else if c < 2048 then Some [of_nat (192 + c div 64), of_nat (128 + c mod 64)]
      else if c < 65536 then
        (if 55296 \<le> c \<and> c < 57344 then None
         else Some [of_nat (224 + c div 4096), of_nat (128 + c div 64 mod 64), of_nat (128 + c mod 64)])
      else if c < 1114112 then
        Some [of_nat (240 + c div 262144), of_nat (128 + c div 4096 mod 64),
              of_nat (128 + c div 64 mod 64), of_nat (128 + c mod 64)]
      else None)"

text \<open>Python's \<^verbatim>\<open>'latin-1'\<close> codec, strict.\<close>

definition latin1_encode :: "nat \<Rightarrow> byte list option" where
  "latin1_encode c = (if c < 256 then Some [of_nat c] else None)"

text \<open>\<^verbatim>\<open>str.encode\<close> with a strict codec: the bytes of every code point, or the error.\<close>

definition encode_text :: "(nat \<Rightarrow> byte list option) \<Rightarrow> ustr \<Rightarrow> byte list py" where
  "encode_text enc t = (case those (map enc t) of None \<Rightarrow> Inl ValueError | Some bs \<Rightarrow> Inr (concat bs))"

section \<open>The printed texts\<close>

text \<open>A Latin-1 string as code points.\<close>

definition uni :: "string \<Rightarrow> ustr" where
  "uni s = map of_char s"

definition newline_cp :: nat where
  "newline_cp = 10"

text \<open>Line 146: \<^verbatim>\<open>f"\n\<close>U+1F310\<^verbatim>\<open> Scraping: {url}"\<close>.\<close>

definition scraping_text :: "string \<Rightarrow> ustr" where
  "scraping_text u = [newline_cp, 127760] @ uni '' Scraping: '' @ uni u"

text \<open>Line 84: U+274C\<^verbatim>\<open> JSON data not found for {recipe_url}\<close>.\<close>

definition not_found_text :: "string \<Rightarrow> ustr" where
  "not_found_text u = [10060] @ uni '' JSON data not found for '' @ uni u"

text \<open>Line 127: \<^verbatim>\<open>Error scraping {recipe_url}: {e}\<close>.\<close>

definition error_text :: "(py_error \<Rightarrow> string) \<Rightarrow> string \<Rightarrow> py_error \<Rightarrow> ustr" where
  "error_text msg u e = uni ''Error scraping '' @ uni u @ uni '': '' @ uni (msg e)"

text \<open>Line 139: U+2705\<^verbatim>\<open> Data saved to {filename}\<close>.\<close>

definition saved_text :: "string \<Rightarrow> ustr" where
  "saved_text f = [9989] @ uni '' Data saved to '' @ uni f"

text \<open>
  Lines 149--153. The dish name is formatted by \<^verbatim>\<open>format(v, '')\<close>, which is
  \<^verbatim>\<open>str(v)\<close> for every decoded JSON value and may raise; the other fields are strings.
\<close>

definition recipe_texts :: "recipe_data \<Rightarrow> ustr py list" where
  "recipe_texts d =
     [Inr ([newline_cp, 128204] @ uni '' Extracted Recipe Data:''),
      map_sum id (\<lambda>s. [127869, 65039] @ uni '' Dish Name: '' @ uni s) (py_str (dish_name d)),
      Inr ([9201, 65039] @ uni '' Ready In Time: '' @ uni (ready_in_time d)),
      Inr ([newline_cp, 128221] @ uni '' Ingredients for 1 serving:'' @ [newline_cp] @ uni (ingredients_col d)),
      Inr ([newline_cp, 128104, 8205, 127859] @ uni '' Directions:'' @ [newline_cp] @ uni (directions_col d))]"

text \<open>Line 156.\<close>

definition all_scraped_text :: ustr where
  "all_scraped_text = [newline_cp, 127881] @ uni '' All recipes scraped successfully!''"

section \<open>Printing\<close>

text \<open>
  Successive \<^verbatim>\<open>print\<close> calls: each text, when it could be formatted, is written with
  its newline if the codec encodes it; the first failure stops the sequence with the
  bytes written so far.
\<close>

fun print_all :: "(nat \<Rightarrow> byte list option) \<Rightarrow> ustr py list \<Rightarrow> byte list \<Rightarrow> byte list \<times> py_error option" where
  "print_all enc [] bs = (bs, None)"
| "print_all enc (t # ts) bs =
     (case t of
        Inl e \<Rightarrow> (bs, Some e)
      | Inr x \<Rightarrow> (case encode_text enc (x @ [newline_cp]) of
                  Inl e \<Rightarrow> (bs, Some e)
                | Inr b \<Rightarrow> print_all enc ts (bs @ b)))"

section \<open>One page and the main loop with their output\<close>

text \<open>Lines 126--128: the message of the \<^verbatim>\<open>except\<close>; if it cannot be printed, the
  exception leaves the function after the \<^verbatim>\<open>finally\<close>.\<close>

definition report_error ::
  "(nat \<Rightarrow> byte list option) \<Rightarrow> (py_error \<Rightarrow> string) \<Rightarrow> string \<Rightarrow> py_error \<Rightarrow> byte list \<Rightarrow> byte list \<times> recipe_data option py" where
  "report_error enc msg u e bs =
     (case print_all enc [Inr (error_text msg u e)] bs of
        (bs', None) \<Rightarrow> (bs', Inr None)
      | (bs', Some e') \<Rightarrow> (bs', Inl e'))"

text \<open>
  \<^verbatim>\<open>scrape_foodcom_recipe(url)\<close> with its output, for the page the browser delivers:
  the bytes written and the result. A failing print of line 84 raises inside the
  \<^verbatim>\<open>try\<close> and is reported by line 127.
\<close>

definition scrape_console ::
  "(nat \<Rightarrow> byte list option) \<Rightarrow> (py_error \<Rightarrow> string) \<Rightarrow> string \<Rightarrow> page \<Rightarrow> byte list \<Rightarrow> byte list \<times> recipe_data option py" where
  "scrape_console enc msg u p bs =
     (case p of
        DriverStartFailure \<Rightarrow> (bs, Inl WebDriverException)
      | LoadFailure e \<Rightarrow> report_error enc msg u e bs
      | ParseFailure e \<Rightarrow> report_error enc msg u e bs
      | NoLdJson \<Rightarrow>
          (case print_all enc [Inr (not_found_text u)] bs of
             (bs', None) \<Rightarrow> (bs', Inr None)
           | (bs', Some e) \<Rightarrow> report_error enc msg u e bs')
      | LdJsonUndecodable e \<Rightarrow> report_error enc msg u e bs
      | LdJson j \<Rightarrow>
          (case scrape_json j of
             Inl e \<Rightarrow> report_error enc msg u e bs
           | Inr d \<Rightarrow> (bs, Inr (Some d))))"

record console_state =
  con_csv :: csv_file
  stdout :: "byte list"

text \<open>
  Lines 145--156 with their output: the final state and the exception that ended the
  program, if any. The row is saved before line 139 prints its message.
\<close>

fun main_console ::
  "(nat \<Rightarrow> byte list option) \<Rightarrow> (py_error \<Rightarrow> string) \<Rightarrow> (string \<Rightarrow> page) \<Rightarrow> string list \<Rightarrow>
   console_state \<Rightarrow> console_state \<times> py_error option" where
  "main_console enc msg fetch [] s =
     (case print_all enc [Inr all_scraped_text] (stdout s) of (bs, r) \<Rightarrow> (s\<lparr>stdout := bs\<rparr>, r))"
| "main_console enc msg fetch (u # us) s =
     (case print_all enc [Inr (scraping_text u)] (stdout s) of
        (bs, Some e) \<Rightarrow> (s\<lparr>stdout := bs\<rparr>, Some e)
      | (bs, None) \<Rightarrow>
          (case scrape_console enc msg u (fetch u) bs of
             (bs1, Inl e) \<Rightarrow> (s\<lparr>stdout := bs1\<rparr>, Some e)
           | (bs1, Inr None) \<Rightarrow> main_console enc msg fetch us (s\<lparr>stdout := bs1\<rparr>)
           | (bs1, Inr (Some d)) \<Rightarrow>
               (case print_all enc (recipe_texts d) bs1 of
                  (bs2, Some e) \<Rightarrow> (s\<lparr>stdout := bs2\<rparr>, Some e)
                | (bs2, None) \<Rightarrow>
                    (case print_all enc [Inr (saved_text ''rec.csv'')] bs2 of
                       (bs3, Some e) \<Rightarrow> (s\<lparr>con_csv := save_to_csv d (con_csv s), stdout := bs3\<rparr>, Some e)
                     | (bs3, None) \<Rightarrow>
                         main_console enc msg fetch us (s\<lparr>con_csv := save_to_csv d (con_csv s), stdout := bs3\<rparr>)))))"

section \<open>The trace printed on a UTF-8 console\<close>

text \<open>
  The bytes the print calls of one event of the \<open>MainLoop\<close> trace write on a UTF-8
  console, and the console state a run state stands for.
\<close>

fun event_texts :: "(py_error \<Rightarrow> string) \<Rightarrow> event \<Rightarrow> ustr py list" where
  "event_texts msg (PrintScraping u) = [Inr (scraping_text u)]"
| "event_texts msg (PrintJsonNotFound u) = [Inr (not_found_text u)]"
| "event_texts msg (PrintScrapeError u e) = [Inr (error_text msg u e)]"
| "event_texts msg (PrintRecipe d) = recipe_texts d"
| "event_texts msg (PrintSaved f) = [Inr (saved_text f)]"
| "event_texts msg PrintAllScraped = [Inr all_scraped_text]"
| "event_texts msg _ = []"

definition event_bytes :: "(py_error \<Rightarrow> string) \<Rightarrow> event \<Rightarrow> byte list" where
  "event_bytes msg ev = fst (print_all utf8_encode (event_texts msg ev) [])"

definition console_of :: "(py_error \<Rightarrow> string) \<Rightarrow> run_state \<Rightarrow> console_state" where
  "console_of msg s = \<lparr>con_csv = csv s, stdout = concat (map (event_bytes msg) (out s))\<rparr>"

text \<open>
  A page whose record, if any, has a dish name \<^verbatim>\<open>str\<close> can print (every page
  \<^verbatim>\<open>json.loads\<close> produced: \<open>page_of_document_printable\<close>), and the exception a
  run of the trace model ends with.
\<close>

definition page_printable :: "page \<Rightarrow> bool" where
  "page_printable p =
     (case p of
        LdJson j \<Rightarrow> (case scrape_json j of Inr d \<Rightarrow> \<not> isl (py_str (dish_name d)) | Inl _ \<Rightarrow> True)
      | _ \<Rightarrow> True)"

definition stop_error :: "config \<Rightarrow> py_error option" where
  "stop_error c = (case c of Stopped _ \<Rightarrow> Some WebDriverException | _ \<Rightarrow> None)"

definition utf8_ok :: "nat \<Rightarrow> bool" where
  "utf8_ok c \<longleftrightarrow> c < 55296 \<or> (57344 \<le> c \<and> c < 1114112)"

section \<open>Lemmas: printing\<close>

lemma print_all_append:
  "print_all enc (ts @ us) bs = (case print_all enc ts bs of (bs', None) \<Rightarrow> print_all enc us bs' | r \<Rightarrow> r)"
  by (induction ts arbitrary: bs) (auto split: sum.splits prod.splits option.splits)

lemma print_all_ok:
  "\<forall>t \<in> set ts. \<exists>x b. t = Inr x \<and> encode_text enc (x @ [newline_cp]) = Inr b \<Longrightarrow>
   print_all enc ts bs = (bs @ fst (print_all enc ts []), None)"
proof (induction ts arbitrary: bs)
  case Nil
  then show ?case by simp
next
  case (Cons t ts)
  then obtain x b where "t = Inr x" "encode_text enc (x @ [newline_cp]) = Inr b" by auto
  then show ?case using Cons.IH [of "bs @ b"] Cons.IH [of b] Cons.prems by simp
qed

lemma those_map_Some: "\<forall>x \<in> set xs. f x \<noteq> None \<Longrightarrow> \<exists>ys. those (map f xs) = Some ys"
  by (induction xs) auto

lemma utf8_encode_ok: "utf8_ok c \<Longrightarrow> utf8_encode c \<noteq> None"
  by (auto simp: utf8_ok_def utf8_encode_def)

lemma encode_text_utf8: "\<forall>c \<in> set x. utf8_ok c \<Longrightarrow> \<exists>b. encode_text utf8_encode x = Inr b"
  using those_map_Some [of x utf8_encode] utf8_encode_ok by (auto simp: encode_text_def)

lemma uni_less_256: "c \<in> set (uni s) \<Longrightarrow> c < 256"
  by (auto simp: uni_def nat_of_char_less_256)

lemma utf8_ok_bmp [simp]: "c < 55296 \<Longrightarrow> utf8_ok c"
  by (simp add: utf8_ok_def)

lemma utf8_ok_high [simp]: "57344 \<le> c \<Longrightarrow> c < 1114112 \<Longrightarrow> utf8_ok c"
  by (simp add: utf8_ok_def)

lemma uni_utf8_ok [simp]: "\<forall>c \<in> set (uni s). utf8_ok c"
proof
  fix c
  assume "c \<in> set (uni s)"
  then have "c < 256" by (rule uni_less_256)
  then show "utf8_ok c" by simp
qed

lemma those_map_the: "\<forall>x \<in> set xs. f x \<noteq> None \<Longrightarrow> those (map f xs) = Some (map (\<lambda>x. the (f x)) xs)"
  by (induction xs) auto

lemma encode_text_utf8_eq:
  "\<forall>c \<in> set x. utf8_ok c \<Longrightarrow> encode_text utf8_encode x = Inr (concat (map (\<lambda>c. the (utf8_encode c)) x))"
  using those_map_the [of x utf8_encode] utf8_encode_ok by (simp add: encode_text_def)

lemmas console_text_defs =
  scraping_text_def not_found_text_def error_text_def saved_text_def all_scraped_text_def newline_cp_def ball_Un

lemma scrape_console_io:
  "scrape_console utf8_encode msg u p bs =
     (bs @ concat (map (event_bytes msg) (fst (scrape_foodcom_recipe_io u p))), snd (scrape_foodcom_recipe_io u p))"
  by (simp add: scrape_console_def report_error_def scrape_foodcom_recipe_io_def event_bytes_def
                encode_text_utf8_eq console_text_defs split: page.split sum.split)

lemma print_recipe_utf8:
  assumes "\<not> isl (py_str (dish_name d))"
  shows "print_all utf8_encode (recipe_texts d) bs = (bs @ event_bytes msg (PrintRecipe d), None)"
proof -
  obtain t where "py_str (dish_name d) = Inr t" using assms by (cases "py_str (dish_name d)") auto
  then show ?thesis
    by (simp add: recipe_texts_def event_bytes_def encode_text_utf8_eq newline_cp_def ball_Un)
qed

lemma scrape_io_Inl: "scrape_foodcom_recipe_io u p = (evs, Inl e) \<Longrightarrow> e = WebDriverException"
  by (auto simp: scrape_foodcom_recipe_io_def split: page.splits sum.splits)

lemma scrape_io_printable:
  "scrape_foodcom_recipe_io u p = (evs, Inr (Some d)) \<Longrightarrow> page_printable p \<Longrightarrow> \<not> isl (py_str (dish_name d))"
  by (auto simp: scrape_foodcom_recipe_io_def page_printable_def split: page.splits sum.splits)

lemma main_console_step:
  assumes "page_printable (fetch u)"
  shows "main_console utf8_encode msg fetch (u # us) (console_of msg s) =
           (case iteration u (fetch u) s of
              Inl s' \<Rightarrow> (console_of msg s', Some WebDriverException)
            | Inr s' \<Rightarrow> main_console utf8_encode msg fetch us (console_of msg s'))"
proof -
  obtain evs r where io: "scrape_foodcom_recipe_io u (fetch u) = (evs, r)" by fastforce
  define bs where "bs = concat (map (event_bytes msg) (out s))"
  have sc: "print_all utf8_encode [Inr (scraping_text u)] bs = (bs @ event_bytes msg (PrintScraping u), None)"
    by (simp add: event_bytes_def encode_text_utf8_eq console_text_defs)
  have sv: "print_all utf8_encode [Inr (saved_text f)] b = (b @ event_bytes msg (PrintSaved f), None)" for f b
    by (simp add: event_bytes_def encode_text_utf8_eq console_text_defs)
  have cs: "console_of msg s = \<lparr>con_csv = csv s, stdout = bs\<rparr>" by (simp add: console_of_def bs_def [symmetric])
  show ?thesis
  proof (cases r)
    case (Inl e)
    then show ?thesis using io scrape_io_Inl [of u "fetch u" evs e]
      by (simp add: cs sc scrape_console_io iteration_def console_of_def bs_def [symmetric] del: print_all.simps)
  next
    case (Inr ro)
    show ?thesis
    proof (cases ro)
      case None
      then show ?thesis using io Inr by (simp add: cs sc scrape_console_io iteration_def console_of_def bs_def [symmetric] del: print_all.simps)
    next
      case (Some d)
      then have "\<not> isl (py_str (dish_name d))" using scrape_io_printable [of u "fetch u" evs d] io Inr assms by auto
      then show ?thesis using io Inr Some
        by (simp add: cs sc sv scrape_console_io print_recipe_utf8 [where msg = msg] iteration_def console_of_def bs_def [symmetric] save_to_csv_io_def del: print_all.simps)
    qed
  qed
qed

lemma json_ints_ok_map_of:
  "json_ints_ok_items kvs \<Longrightarrow> map_of kvs k = Some v \<Longrightarrow> json_ints_ok v"
  by (induction kvs) (auto split: if_splits)

lemma scrape_json_dish:
  "scrape_json j = Inr d \<Longrightarrow> py_get j ''name'' (JStr ''Unknown Dish'') = Inr (dish_name d)"
  by (auto simp: scrape_json_def py_bind_def split: sum.splits)

text \<open>
  Every page built from a document, through \<^verbatim>\<open>json.loads\<close>, is printable: the ints
  the decoder makes are within the limit of \<^verbatim>\<open>str\<close>.
\<close>

lemma page_of_document_printable:
  assumes "page_of_document doc = Some p"
  shows "page_printable p"
proof (cases p)
  case (LdJson j)
  then obtain s where "json_loads s = Some (Inr j)"
    using assms by (auto simp: page_of_document_def split: option.splits sum.splits)
  then have ok: "json_ints_ok j" by (rule json_loads_ints_ok)
  have "\<not> isl (py_str (dish_name d))" if sj: "scrape_json j = Inr d" for d
  proof -
    have "py_get j ''name'' (JStr ''Unknown Dish'') = Inr (dish_name d)" using sj by (rule scrape_json_dish)
    then have "dish_name d = (case j of
                 JObj kvs \<Rightarrow> (case map_of kvs ''name'' of None \<Rightarrow> JStr ''Unknown Dish'' | Some v \<Rightarrow> v)
               | _ \<Rightarrow> JNull)"
      by (cases j) (auto split: option.splits)
    then show ?thesis
      using ok json_ints_ok_map_of [of _ "''name''"] py_str_ints_ok [of "dish_name d"]
      by (cases j) (auto split: option.splits)
  qed
  then show ?thesis using LdJson by (auto simp: page_printable_def split: sum.splits)
qed (simp_all add: page_printable_def)

section \<open>Properties of the output\<close>

text \<open>
  C9. With a UTF-8 console, the program with its prints behaves as the trace model says:
  for pages whose dish name \<^verbatim>\<open>str\<close> can print (every page \<^verbatim>\<open>json.loads\<close>
  decodes), no print raises, the CSV file is the one \<open>main_loop\<close> writes, the bytes on
  standard output are the UTF-8 text of the trace's print events in order, and the
  program ends with an exception exactly when the loop stopped on a browser that did not
  start.
\<close>

theorem main_console_refines:
  assumes "\<forall>u \<in> set us. page_printable (fetch u)"
  shows "main_console utf8_encode msg fetch us (console_of msg s) =
           (console_of msg (state_of (main_loop fetch us s)), stop_error (main_loop fetch us s))"
  using assms
proof (induction us arbitrary: s)
  case Nil
  have "print_all utf8_encode [Inr all_scraped_text] (stdout (console_of msg s)) =
          (stdout (console_of msg s) @ event_bytes msg PrintAllScraped, None)"
    by (simp add: event_bytes_def encode_text_utf8_eq console_text_defs)
  then show ?case by (simp add: console_of_def state_of_def stop_error_def)
next
  case (Cons u us)
  then have p: "page_printable (fetch u)" and ps: "\<forall>u \<in> set us. page_printable (fetch u)" by simp_all
  show ?case
  proof (cases "iteration u (fetch u) s")
    case (Inl s')
    then show ?thesis using main_console_step [where fetch = fetch and u = u, OF p] by (simp add: state_of_def stop_error_def)
  next
    case (Inr s')
    then show ?thesis using main_console_step [where fetch = fetch and u = u, OF p] Cons.IH [OF ps, of s'] by simp
  qed
qed

theorem main_console_refines_witness:
  "page_printable NoLdJson \<and>
   main_console utf8_encode (\<lambda>_. ''error'') (\<lambda>_. NoLdJson) urls (console_of (\<lambda>_. ''error'') \<lparr>csv = None, out = []\<rparr>) =
     (console_of (\<lambda>_. ''error'') (state_of (main_loop (\<lambda>_. NoLdJson) urls \<lparr>csv = None, out = []\<rparr>)),
      stop_error (main_loop (\<lambda>_. NoLdJson) urls \<lparr>csv = None, out = []\<rparr>))"
proof -
  have p: "\<forall>u \<in> set urls. page_printable ((\<lambda>_. NoLdJson) u)" by (simp add: page_printable_def)
  show ?thesis using p main_console_refines [OF p, of "\<lambda>_. ''error''" "\<lparr>csv = None, out = []\<rparr>"]
    by (simp add: page_printable_def)
qed

text \<open>
  C11. On a console whose codec cannot encode U+1F310 (Latin-1, or a Windows code page
  when the output is redirected), the first print of the loop (line 146) raises outside
  any \<^verbatim>\<open>try\<close>: the program stops before scraping any URL, writing nothing and
  leaving the CSV file as it was.
\<close>

theorem main_console_encode_error:
  assumes "enc 127760 = None"
  shows "main_console enc msg fetch (u # us) s = (s, Some ValueError)"
  using assms by (cases "enc 10") (simp_all add: scraping_text_def newline_cp_def encode_text_def)

theorem main_console_encode_error_witness:
  "latin1_encode 127760 = None \<and>
   main_console latin1_encode (\<lambda>_. ''error'') (\<lambda>_. LdJson (JObj [])) urls \<lparr>con_csv = None, stdout = []\<rparr> =
     (\<lparr>con_csv = None, stdout = []\<rparr>, Some ValueError)"
proof -
  have l: "latin1_encode 127760 = None" by (simp add: latin1_encode_def)
  have u: "hd urls # tl urls = urls" by (simp add: urls_def)
  have "main_console latin1_encode (\<lambda>_. ''error'') (\<lambda>_. LdJson (JObj [])) (hd urls # tl urls)
          \<lparr>con_csv = None, stdout = []\<rparr> = (\<lparr>con_csv = None, stdout = []\<rparr>, Some ValueError)"
    by (rule main_console_encode_error [where enc = latin1_encode, OF l])
  then show ?thesis using l by (simp only: u)
qed

end
