(* ===== verification/Spec2Isabelle.thy ===== *)
theory Spec2Isabelle
  imports MainLoop CsvText Console
begin

text \<open>
  A verification development of the recipe scraper \<^verbatim>\<open>src/webscraper_project/main.py\<close>.

  \<^bold>\<open>The program.\<close> For each URL of a fixed list, \<^verbatim>\<open>scrape_foodcom_recipe\<close> starts a
  browser, loads the page, finds its JSON-LD block and decodes it, reads the dish name,
  the total time (decoded by \<^verbatim>\<open>parse_iso8601_duration\<close>), the yield (the first run of
  digits of \<^verbatim>\<open>str(recipeYield)\<close>, else 1), the ingredient lines and the instruction
  steps. Each ingredient line is split by \<^verbatim>\<open>extract_quantity\<close> and
  \<^verbatim>\<open>remove_quantity\<close> into a quantity (a sum of \<^verbatim>\<open>Fraction\<close>s converted to
  \<^verbatim>\<open>float\<close>) and a description; a positive quantity is divided by the yield and
  printed by \<^verbatim>\<open>decimal_to_fraction\<close> (\<^verbatim>\<open>Fraction(x).limit_denominator()\<close>). The
  row is appended to a CSV file by \<^verbatim>\<open>save_to_csv\<close>, and the main loop runs over the
  URLs in order.

  \<^bold>\<open>The theories.\<close>
  \<^item> \<open>Prelude\<close>: Python exceptions as the datatype \<open>py_error\<close>, a computation that may
    raise as \<open>'a py = py_error + 'a\<close> with \<open>py_bind\<close>, and the string builtins the
    program uses: \<^verbatim>\<open>int(s)\<close> and \<^verbatim>\<open>str(i)\<close> with the 4300-digit limit
    (\<open>py_int_of_digits\<close>, \<open>py_str_int\<close>), \<^verbatim>\<open>strip\<close>, \<^verbatim>\<open>split()\<close> and
    \<^verbatim>\<open>join\<close> over the Latin-1 whitespace of \<^verbatim>\<open>str.isspace\<close> and \<^verbatim>\<open>\s\<close>.
  \<^item> \<open>PyFloat\<close>: binary64 floats as exact rationals with round-to-nearest-even
    (\<open>round_binary64\<close>), CPython's conversions \<^verbatim>\<open>float(int)\<close>, \<^verbatim>\<open>int / int\<close>,
    \<^verbatim>\<open>float / int\<close>, \<^verbatim>\<open>Fraction(float)\<close> and the shortest \<^verbatim>\<open>repr\<close>.
  \<^item> \<open>PyFraction\<close>: \<^verbatim>\<open>Fraction(str)\<close> by the regular expression of CPython 3.11
    (\<open>match_rational\<close>, \<open>fraction_of_str\<close>) and \<^verbatim>\<open>limit_denominator\<close> with its
    continued-fraction loop \<open>ld_loop\<close>.
  \<^item> \<open>Quantity\<close>: \<^verbatim>\<open>extract_quantity\<close> and \<^verbatim>\<open>remove_quantity\<close> (lines 35--47).
  \<^item> \<open>Render\<close>: \<^verbatim>\<open>decimal_to_fraction\<close> (lines 26--33).
  \<^item> \<open>Duration\<close>: \<^verbatim>\<open>parse_iso8601_duration\<close> (lines 49--63).
  \<^item> \<open>Json\<close>: the decoded JSON values, \<^verbatim>\<open>dict.get\<close>, iteration and \<^verbatim>\<open>str\<close>.
  \<^item> \<open>Scraper\<close>: the yield, the ingredient and direction loops, the page processor
    \<^verbatim>\<open>scrape_foodcom_recipe\<close> (lines 69--130), \<^verbatim>\<open>save_to_csv\<close> (lines 136--139) and
    the data flow of the main loop (lines 145--156) as \<open>scrape_all\<close> over a list of
    pages. What the browser delivers for one URL is a value of \<open>page\<close>: the driver
    failing to start, \<^verbatim>\<open>driver.get\<close> or the parser raising, no JSON-LD block, a
    block \<^verbatim>\<open>json.loads\<close> rejects, or the decoded JSON.
  \<^item> \<open>MainLoop\<close>: the effects besides the CSV file. Each call of
    \<^verbatim>\<open>scrape_foodcom_recipe\<close> produces a trace of events (\<open>DriverStarted\<close>,
    \<open>DriverQuit\<close> from its \<^verbatim>\<open>finally\<close>, \<open>Slept 3\<close> for line 79, the printed
    lines as data), and the
    \<^verbatim>\<open>for url in urls\<close> loop is the inductive step relation \<open>main_step\<close> on
    configurations \<open>Running\<close>, \<open>Finished\<close> (line 156 printed) and \<open>Stopped\<close> (an
    exception from \<^verbatim>\<open>Service\<close>/\<^verbatim>\<open>webdriver.Chrome\<close>, outside the
    \<^verbatim>\<open>try\<close>, leaves the loop). The environment chooses each page, so the relation
    is nondeterministic; \<open>main_loop\<close> is the run for one choice of pages.
  \<^item> \<open>CsvText\<close>: the text of \<^verbatim>\<open>rec.csv\<close> that \<^verbatim>\<open>DataFrame.to_csv\<close> appends (lines
    137--138): the header of the dict's keys (\<open>csv_columns\<close>), the cells of a row
    (\<open>row_cells\<close>: \<^verbatim>\<open>str\<close> of the dish name, empty for \<open>None\<close> and \<open>NaN\<close>), and
    \<^verbatim>\<open>csv.writer\<close>'s \<^verbatim>\<open>QUOTE_MINIMAL\<close> quoting (a field with a comma, a quote, a
    line feed or a carriage return is quoted, quotes doubled) and the line terminator
    \<^verbatim>\<open>\n\<close> (\<open>csv_quote\<close>, \<open>csv_write_row\<close>); \<open>csv_file_text\<close> is the
    file's contents. The decoder \<open>csv_read\<close> is a specification, not code of the
    program: \<^verbatim>\<open>csv.reader\<close> on a file opened with \<^verbatim>\<open>newline=''\<close>, where a line
    feed or carriage return outside quotes ends a record; it states what reading the
    file back gives.
  \<^item> \<open>JsonDecode\<close>: \<^verbatim>\<open>json.loads\<close> (line 87), CPython 3.11's decoder: whitespace
    (\<open>skip_ws\<close>), \<^verbatim>\<open>scanstring\<close> with its escapes (\<open>json_scanstring\<close>), the number
    pattern (\<open>json_number\<close>), the literals (\<open>json_atom\<close>), the mutually recursive
    value, array and object scanners (\<open>json_value\<close>, \<open>json_elems\<close>,
    \<open>json_members\<close>, with \<open>dict_set\<close> for repeated keys) and \<open>json_loads\<close>. The
    encoder \<^verbatim>\<open>json.dumps\<close> with its defaults (\<open>json_dumps\<close>) is a specification,
    not code of the program: it states which texts decode to which values.
  \<^item> \<open>Document\<close>: the tree BeautifulSoup builds (\<open>node\<close>), \<^verbatim>\<open>soup.find\<close> for the
    first \<^verbatim>\<open>application/ld+json\<close> script (\<open>find_ld_json\<close>, line 82),
    \<^verbatim>\<open>Tag.string\<close> (\<open>node_string\<close>) and, composed with \<open>json_loads\<close>, the
    \<open>page\<close> a document gives (\<open>page_of_document\<close>, lines 80--87).
  \<^item> \<open>Console\<close>: what the prints write to standard output. Each printed line is a
    text of Unicode code points (\<open>scraping_text\<close>, \<open>not_found_text\<close>,
    \<open>error_text\<close>, \<open>recipe_texts\<close>, \<open>saved_text\<close>, \<open>all_scraped_text\<close>, with
    the emoji of the source) encoded by the console's codec (\<open>utf8_encode\<close>,
    \<open>latin1_encode\<close>), which may raise. \<open>scrape_console\<close> and \<open>main_console\<close>
    run the function and the loop with these prints and their exceptions;
    \<open>console_of\<close> maps a state of the trace model to the console it stands for.
  \<^item> This theory: the properties of the pipeline that span the components.

  \<^bold>\<open>What is shown.\<close> For the pure functions: their result on every branch, errors
  included (the quantity parser, the duration phrase, the yield, the rendering of
  quantities, \<^verbatim>\<open>Fraction(str)\<close>); that \<open>limit_denominator\<close> never raises, bounds the
  denominator and returns a closest fraction within the bound (by the Farey-neighbour
  property of the two bounds its loop leaves); the rounding error of a float division
  (relative error at most \<open>2\<^sup>-\<^sup>5\<^sup>3\<close> in the normal range); the round trip from a rendered quantity back through
  \<^verbatim>\<open>extract_quantity\<close>. For the scraper: one ingredient that is not a string drops
  the whole page; the CSV file stays a header followed by
  data rows, and its rows are those of \<open>scrape_all\<close>; the text the writer produces
  decodes back to the rows written, each \<^verbatim>\<open>save_to_csv\<close> appends the header only to
  a new file, and after the main loop the file reads back as the header and the four
  cells of each scraped recipe in page order. For the main loop, by rule
  induction over \<open>main_step\<^sup>*\<^sup>*\<close>: every browser session started is quit before the
  next, the URLs are visited in the order of the list, the closing line has been printed
  exactly in a \<open>Finished\<close> configuration; \<open>main_loop\<close>, the run for given pages, is a
  run of the relation (\<open>main_loop_reachable\<close>).
  For the decoder: it consumes its input and the fuel \<open>json_loads\<close> gives never runs
  out; every value \<^verbatim>\<open>json.dumps\<close> writes (distinct keys, no finite floats) decodes
  back to itself, and every int it decodes can be printed by \<^verbatim>\<open>str\<close>. For the
  console: with UTF-8 no print raises on pages \<^verbatim>\<open>json.loads\<close> produced, and the
  program's output and CSV file are those of the trace model (\<open>main_console_refines\<close>);
  with a codec that lacks the emoji the program stops at its first print. For the
  document: the first JSON-LD script decides the page, and one
  that is not a recipe gives the row of defaults whatever scripts follow it.

  \<^bold>\<open>Bounds and fuel.\<close> Only the JSON scanner uses fuel, one unit per call of
  \<open>json_value\<close>, \<open>json_elems\<close> or \<open>json_members\<close>; each call consumes at least
  one character or is followed by a call that does, so \<open>json_loads\<close> gives
  \<open>2 * length s + 1\<close>, and \<open>json_loads_fuel\<close> proves it is never exhausted.
  \<open>ld_loop\<close> terminates by the
  measure \<open>\<bar>d\<bar>\<close>, the main loop by the length of the URL list, the CSV reader
  \<open>csv_read_from\<close> by the length of the text and then by leaving the state after a
  carriage return, and the other loops are structural. Floats are exact rationals rounded to 53 significant bits with the
  exponent range of binary64, which is what CPython computes, so no bound is chosen.

  \<^bold>\<open>Not modelled.\<close> The browser (Selenium, \<^verbatim>\<open>webdriver_manager\<close>) is external:
  what it delivers for one URL is a value of the datatype \<open>page\<close>, or a
  \<open>node\<close> tree for \<open>page_of_document\<close>. The tokenising of the HTML text into that
  tree is not modelled. Characters are Latin-1 throughout; a JSON text whose
  \<^verbatim>\<open>\uXXXX\<close> escapes name a code point beyond it has no value in the model
  (\<open>json_loads\<close> gives \<open>None\<close>). CPython's recursion limit on deeply nested JSON
  is not modelled. Of pandas only what \<^verbatim>\<open>to_csv\<close> writes for a one-row frame of
  object cells is modelled; a cell whose \<^verbatim>\<open>str\<close> raises (an int past the 4300-digit
  limit, which \<^verbatim>\<open>json.loads\<close> itself refuses) makes the text an exception. Of an exception printed by line 127 the model has the
  class, not the message: its text is the parameter \<open>msg\<close>. What
  \<^verbatim>\<open>webdriver_manager\<close> logs while installing the driver is not modelled.
  \<^verbatim>\<open>time.sleep(3)\<close> is the event \<open>Slept 3\<close> of the trace; the delay itself has no
  effect on the data.
\<close>

section \<open>Lemmas\<close>

lemma extract_two_cups: "extract_quantity ''2 cups flour'' = Some (Fin 2)"
  by code_simp

lemma format_ingredient_Inr:
  "\<bar>y\<bar> < 2 ^ 53 \<Longrightarrow> \<exists>s. format_ingredient y (JStr text) = Inr s"
  by (cases "extract_quantity text")
     (auto simp: format_ingredient_def Let_def py_float_div_int_small dest!: extract_quantity_Fin)

lemma format_ingredients_strings:
  assumes "\<bar>y\<bar> < 2 ^ 53"
  shows "\<exists>lines. format_ingredients y (map JStr ings) = Inr lines \<and>
                 list_all2 (\<lambda>i l. format_ingredient y (JStr i) = Inr l) ings lines"
proof (induction ings)
  case Nil
  then show ?case by simp
next
  case (Cons i ings)
  then obtain lines where ls: "format_ingredients y (map JStr ings) = Inr lines"
    and a: "list_all2 (\<lambda>i l. format_ingredient y (JStr i) = Inr l) ings lines" by blast
  obtain l where l: "format_ingredient y (JStr i) = Inr l"
    using format_ingredient_Inr [OF assms] by blast
  show ?case using ls a l by auto
qed

section \<open>Scaling an ingredient line\<close>

text \<open>
  C1. With a yield of 0 the quantity is dropped altogether: the line is the description
  alone, whatever the quantity was, whereas the specification asks for the quantity to be
  kept unscaled.
\<close>

theorem format_ingredient_zero_yield:
  "format_ingredient 0 (JStr text) = Inr (remove_quantity text)"
  by (simp add: format_ingredient_def Let_def remove_quantity_def split: option.split)

text \<open>
  C17. A positive quantity with a non-zero yield below \<open>2\<^sup>5\<^sup>3\<close> is divided by the yield with one correctly rounded float division, printed by \<^verbatim>\<open>decimal_to_fraction\<close> and followed by the description.
\<close>

theorem format_ingredient_scaled:
  assumes "extract_quantity text = Some (Fin q)" "0 < q" "y \<noteq> 0" "\<bar>y\<bar> < 2 ^ 53"
  shows "format_ingredient y (JStr text) =
           Inr (py_strip (decimal_to_fraction (f64_of_rat (q / of_int y)) @ '' '' @ remove_quantity text))"
  using assms by (simp add: format_ingredient_def py_float_div_int_small)

theorem format_ingredient_scaled_witness:
  "format_ingredient 4 (JStr ''2 cups flour'') = Inr ''1/2 cups flour''"
proof -
  have r: "py_strip (decimal_to_fraction (f64_of_rat (2 / of_int 4)) @ '' '' @ remove_quantity ''2 cups flour'')
             = ''1/2 cups flour''"
    by code_simp
  show ?thesis
    using format_ingredient_scaled [OF extract_two_cups] r by simp
qed

text \<open>
  C18. Formatting a string item never raises when the yield is below \<open>2\<^sup>5\<^sup>3\<close> in magnitude.
\<close>

theorem format_ingredient_total:
  "\<bar>y\<bar> < 2 ^ 53 \<Longrightarrow> \<exists>s. format_ingredient y (JStr text) = Inr s"
  by (rule format_ingredient_Inr)

theorem format_ingredient_total_witness: "\<exists>s. format_ingredient 4 (JStr ''2 cups flour'') = Inr s"
  by (rule format_ingredient_total) simp

text \<open>
  C19. A yield of \<open>2\<^sup>1\<^sup>0\<^sup>2\<^sup>4\<close> or more makes \<^verbatim>\<open>qty / yield_number\<close> raise \<open>OverflowError\<close> for every line with a positive quantity, which loses the whole page.
\<close>

theorem format_ingredient_huge_yield:
  assumes "extract_quantity text = Some q" "py_float_pos q" "pow2 1024 \<le> \<bar>of_int y\<bar>"
  shows "format_ingredient y (JStr text) = Inl OverflowError"
proof -
  have "y \<noteq> 0"
  proof
    assume "y = 0"
    with assms(3) have "pow2 1024 \<le> 0" by (simp del: pow2_numeral)
    with pow2_pos [of 1024] show False by linarith
  qed
  then show ?thesis
    using assms by (simp add: format_ingredient_def py_float_div_int_def py_float_of_int_overflow del: pow2_numeral)
qed


theorem format_ingredient_huge_yield_witness:
  "format_ingredient (2 ^ 1024) (JStr ''2 cups flour'') = Inl OverflowError"
  by (rule format_ingredient_huge_yield [OF extract_two_cups]) simp_all

text \<open>
  C20. A line whose quantity does not parse (for instance \<^verbatim>\<open>1/0\<close>) loses its quantity prefix all the same: the result is the description after the prefix, not the whole line the specification keeps.
\<close>

theorem format_ingredient_no_quantity:
  "extract_quantity text = None \<Longrightarrow> format_ingredient y (JStr text) = Inr (remove_quantity text)"
  by (simp add: format_ingredient_def remove_quantity_def)

theorem format_ingredient_no_quantity_witness:
  "format_ingredient 4 (JStr ''1/0 cup sugar'') = Inr ''cup sugar''"
proof -
  have "extract_quantity ''1/0 cup sugar'' = None" by code_simp
  moreover have "remove_quantity ''1/0 cup sugar'' = ''cup sugar''" by code_simp
  ultimately show ?thesis using format_ingredient_no_quantity by simp
qed

text \<open>
  C21. Scaling by a yield of 1 changes nothing: the line is the parsed quantity printed by \<^verbatim>\<open>decimal_to_fraction\<close> and the description, because every float \<^verbatim>\<open>extract_quantity\<close> returns is a double that division by 1 reproduces.
\<close>

theorem format_ingredient_yield_one:
  "format_ingredient 1 (JStr text) =
     Inr (case extract_quantity text of
            Some q \<Rightarrow> if py_float_pos q then py_strip (decimal_to_fraction q @ '' '' @ remove_quantity text)
                      else remove_quantity text
          | None \<Rightarrow> remove_quantity text)"
proof (cases "extract_quantity text")
  case None
  then show ?thesis by (simp add: format_ingredient_def remove_quantity_def)
next
  case (Some q)
  then obtain r where q: "q = Fin r" "round_binary64 r = r" "\<not> f64_overflows r"
    using extract_quantity_float by blast
  then have "py_float_div_int q 1 = Inr q"
    by (simp add: py_float_div_int_small f64_of_rat_float)
  then show ?thesis
    using Some by (simp add: format_ingredient_def remove_quantity_def)
qed

section \<open>One page\<close>

text \<open>
  C24. The page contract: for a decoded record whose fields have the expected types (string ingredient lines, steps that are dicts with a string text, a duration that decodes and a yield below \<open>2\<^sup>5\<^sup>3\<close>), the page is never dropped, and its row holds the dish name, the decoded time, the formatted ingredient lines one per input line in order (or the sentinel when there are none) and the step texts (or the sentinel), each joined by newlines.
\<close>

theorem scrape_json_record:
  assumes "py_get j ''name'' (JStr ''Unknown Dish'') = Inr dish"
    and "py_get j ''totalTime'' (JStr ''Not Available'') = Inr (JStr total_time)"
    and "parse_iso8601_duration total_time = Inr ready"
    and "py_get j ''recipeYield'' (JStr ''1'') = Inr recipe_yield"
    and "\<bar>yield_number recipe_yield\<bar> < 2 ^ 53"
    and "py_get j ''recipeIngredient'' (JArr []) = Inr (JArr (map JStr ings))"
    and "py_get j ''recipeInstructions'' (JArr []) = Inr (JArr steps)"
    and "list_all2 (\<lambda>st s. py_get st ''text'' (JStr []) = Inr (JStr s)) steps dirs"
  shows "\<exists>lines. list_all2 (\<lambda>i l. format_ingredient (yield_number recipe_yield) (JStr i) = Inr l) ings lines \<and>
           scrape_json j =
             Inr \<lparr>dish_name = dish, ready_in_time = ready,
                  ingredients_col = join_with newline (if lines = [] then [''Ingredients not found''] else lines),
                  directions_col = join_with newline (if dirs = [] then [''Directions not found''] else dirs)\<rparr>"
proof -
  obtain lines where ls: "format_ingredients (yield_number recipe_yield) (map JStr ings) = Inr lines"
    and a: "list_all2 (\<lambda>i l. format_ingredient (yield_number recipe_yield) (JStr i) = Inr l) ings lines"
    using format_ingredients_strings [OF assms(5)] by blast
  have "scrape_json j =
          Inr \<lparr>dish_name = dish, ready_in_time = ready,
               ingredients_col = join_with newline (if lines = [] then [''Ingredients not found''] else lines),
               directions_col = join_with newline (if dirs = [] then [''Directions not found''] else dirs)\<rparr>"
    using assms(1-4,6,7) ls step_texts_strings [OF assms(8)]
    by (simp add: scrape_json_def py_join_directions ingredients_or_sentinel_def)
  with a show ?thesis by blast
qed


theorem scrape_json_record_witness:
  "scrape_json (JObj [(''name'', JStr ''Soup''), (''totalTime'', JStr ''PT30M''),
                      (''recipeYield'', JStr ''2 servings''),
                      (''recipeIngredient'', JArr [JStr ''1 cup water'']),
                      (''recipeInstructions'', JArr [JObj [(''text'', JStr ''Boil'')]])]) =
     Inr \<lparr>dish_name = JStr ''Soup'', ready_in_time = ''30 minutes'',
          ingredients_col = ''1/2 cup water'', directions_col = ''Boil''\<rparr>"
proof -
  have t: "parse_iso8601_duration ''PT30M'' = Inr ''30 minutes''" by code_simp
  have y: "yield_number (JStr ''2 servings'') = 2" by code_simp
  have f: "format_ingredient 2 (JStr ''1 cup water'') = Inr ''1/2 cup water''" by code_simp
  obtain lines where a: "list_all2 (\<lambda>i l. format_ingredient 2 (JStr i) = Inr l) [''1 cup water''] lines"
    and r: "scrape_json (JObj [(''name'', JStr ''Soup''), (''totalTime'', JStr ''PT30M''),
                      (''recipeYield'', JStr ''2 servings''),
                      (''recipeIngredient'', JArr [JStr ''1 cup water'']),
                      (''recipeInstructions'', JArr [JObj [(''text'', JStr ''Boil'')]])]) =
       Inr \<lparr>dish_name = JStr ''Soup'', ready_in_time = ''30 minutes'',
            ingredients_col = join_with newline (if lines = [] then [''Ingredients not found''] else lines),
            directions_col = join_with newline (if [''Boil''] = [] then [''Directions not found''] else [''Boil''])\<rparr>"
    using scrape_json_record [where j = "JObj [(''name'', JStr ''Soup''), (''totalTime'', JStr ''PT30M''),
                        (''recipeYield'', JStr ''2 servings''),
                        (''recipeIngredient'', JArr [JStr ''1 cup water'']),
                        (''recipeInstructions'', JArr [JObj [(''text'', JStr ''Boil'')]])]"
        and dish = "JStr ''Soup''" and total_time = "''PT30M''" and ready = "''30 minutes''"
        and recipe_yield = "JStr ''2 servings''" and ings = "[''1 cup water'']"
        and steps = "[JObj [(''text'', JStr ''Boil'')]]" and dirs = "[''Boil'']"]
    by (auto simp: t y)
  have "lines = [''1/2 cup water'']" using a f by (auto simp: list_all2_Cons1)
  then show ?thesis using r by simp
qed

section \<open>Round trips\<close>

lemma double_numerator_small:
  assumes "\<not> f64_overflows x" "0 < x" "quotient_of x = (n, d)" "d \<le> 1000000"
  shows "0 < n" and "length (digits_of_int n) \<le> max_str_digits"
proof -
  have d: "0 < d" using assms(3) by (simp add: quotient_of_denom_pos)
  have xnd: "x = of_int n / of_int d" using assms(3) by (simp add: quotient_of_div)
  show n: "0 < n" using assms(2) d xnd by (simp add: zero_less_divide_iff)
  have "of_int n = x * of_int d" using xnd d by simp
  also have "\<dots> < pow2 1024 * 1000000"
  proof -
    have "x < pow2 1024" using assms(1,2) by (simp add: f64_overflows_def del: pow2_numeral)
    moreover have "(of_int d :: rat) \<le> 1000000" using assms(4) by simp
    ultimately show ?thesis using assms(2) d
      by (intro mult_less_le_imp_less) (simp_all del: pow2_numeral)
  qed
  finally have "(of_int n :: rat) < of_int (2 ^ 1024 * 1000000)" by simp
  then have "n < 10 ^ 400" by (simp only: of_int_less_iff) simp
  then show "length (digits_of_int n) \<le> max_str_digits" using n by (simp add: digits_of_int_length_400)
qed

lemma fraction_text_parse:
  assumes qd: "quotient_of x = (n, d)" and n: "0 < n"
    and nl: "length (digits_of_int n) \<le> max_str_digits" and dl: "length (digits_of_int d) \<le> max_str_digits"
  obtains t where "fraction_text x = Inr t" "fraction_of_str t = Inr x" "t \<noteq> []"
    "\<forall>c \<in> set t. is_qty_char c \<and> \<not> is_py_space c"
proof
  let ?t = "digits_of_int n @ (if d = 1 then [] else CHR ''/'' # digits_of_int d)"
  have d: "0 < d" and xnd: "x = of_int n / of_int d"
    using qd by (simp_all add: quotient_of_denom_pos quotient_of_div)
  show "fraction_text x = Inr ?t"
    using n qd d nl dl by (simp add: fraction_text_def py_str_int_digits)
  show "?t \<noteq> []" by (simp add: digits_of_int_ne)
  show "\<forall>c \<in> set ?t. is_qty_char c \<and> \<not> is_py_space c"
  proof -
    have "\<forall>c \<in> set (digits_of_int n). is_digit c" "\<forall>c \<in> set (digits_of_int d). is_digit c"
      using digits_of_int_digits [of n] digits_of_int_digits [of d] n d by auto
    moreover have "is_qty_char (CHR ''/'') \<and> \<not> is_py_space (CHR ''/'')"
      by (simp add: is_qty_char_def is_py_space_def)
    ultimately show ?thesis by (auto intro: digit_qty_char)
  qed
  show "fraction_of_str ?t = Inr x"
  proof (cases "d = 1")
    case True
    then show ?thesis using n nl xnd by (simp add: fraction_of_str_digits digits_of_int_all_digits)
  next
    case False
    then show ?thesis
      using n d nl dl xnd digits_of_int_all_digits [of n] digits_of_int_all_digits [of d]
      by (simp add: fraction_of_str_def match_rational_ratio py_int_of_all_digits all_digits_ne)
  qed
qed

text \<open>
  C30. Rendering then parsing gives the quantity back: a positive double whose denominator is within the bound of \<^verbatim>\<open>limit_denominator\<close>, printed by \<^verbatim>\<open>decimal_to_fraction\<close> in front of a description, is read back by \<^verbatim>\<open>extract_quantity\<close> as the same double.
\<close>

theorem extract_quantity_render:
  assumes "round_binary64 x = x" "\<not> f64_overflows x" "0 < x"
    and "snd (quotient_of x) \<le> default_max_denominator"
    and "desc = [] \<or> \<not> is_qty_char (hd desc)"
  shows "extract_quantity (decimal_to_fraction (Fin x) @ '' '' @ desc) = Some (Fin x)"
proof -
  obtain n d where qd: "quotient_of x = (n, d)" by (cases "quotient_of x")
  have d: "0 < d" "d \<le> 1000000" using qd assms(4) by (simp_all add: quotient_of_denom_pos default_max_denominator_def)
  note nb = double_numerator_small [OF assms(2,3) qd d(2)]
  have dl: "length (digits_of_int d) \<le> max_str_digits"
    using d digits_of_int_length_small [of d] by simp
  obtain t where ft: "fraction_text x = Inr t" and f: "fraction_of_str t = Inr x" and ne: "t \<noteq> []"
    and tok: "\<forall>c \<in> set t. is_qty_char c \<and> \<not> is_py_space c"
    using fraction_text_parse [OF qd nb dl] by blast
  have "limit_denominator default_max_denominator x = Inr x"
    using assms(4) by (intro limit_denominator_small) (simp_all add: default_max_denominator_def)
  then have r: "decimal_to_fraction (Fin x) = t" by (simp add: decimal_to_fraction_def ft)
  have xnd: "x = of_int n / of_int d" using qd by (simp add: quotient_of_div)
  have "py_float_of_fraction x = Inr (Fin x)"
    using qd assms(1,2) d xnd by (simp add: py_float_of_fraction_def py_int_truediv_def py_float_of_rat_double)
  then show ?thesis
    using extract_quantity_token [OF _ tok assms(5)] f r ne by simp
qed

theorem extract_quantity_render_witness:
  "extract_quantity (decimal_to_fraction (Fin (1 / 2)) @ '' '' @ ''cup'') = Some (Fin (1 / 2))"
proof (rule extract_quantity_render)
  show "round_binary64 (1 / 2) = 1 / 2" by code_simp
  show "\<not> f64_overflows (1 / 2)" by (simp add: f64_overflows_def)
  show "snd (quotient_of (1 / 2 :: rat)) \<le> default_max_denominator" by code_simp
  show "''cup'' = [] \<or> \<not> is_qty_char (hd ''cup'')"
    by (simp add: is_qty_char_def is_digit_def is_py_space_def)
qed simp

end
